theory Spec2Isabelle
  imports Main "HOL-Library.Sublist"
begin

section \<open>Data model\<close>

text \<open>
  The timeline reconstruction of \<^verbatim>\<open>src/temporal.service.ts\<close>. The module
  \<^verbatim>\<open>./domain\<close> with the type declarations is not part of the sources, so the types
  below list exactly the fields that the service reads or writes. Event times are kept
  abstract (the type parameter \<open>'t\<close>); event identifiers are numbers; payloads are opaque.
\<close>

type_synonym event_id = nat
type_synonym payloads = "string list"

datatype EventType =
    WORKFLOW_EXECUTION_STARTED
  | WORKFLOW_EXECUTION_COMPLETED
  | WORKFLOW_EXECUTION_FAILED
  | WORKFLOW_EXECUTION_TIMED_OUT
  | WORKFLOW_EXECUTION_CANCELED
  | WORKFLOW_EXECUTION_TERMINATED
  | ACTIVITY_TASK_SCHEDULED
  | ACTIVITY_TASK_STARTED
  | ACTIVITY_TASK_COMPLETED
  | ACTIVITY_TASK_FAILED
  | ACTIVITY_TASK_TIMED_OUT
  | ACTIVITY_TASK_CANCELED
  | CHILD_WORKFLOW_EXECUTION_COMPLETED
  | CHILD_WORKFLOW_EXECUTION_STARTED
  | START_CHILD_WORKFLOW_EXECUTION_INITIATED
  | OTHER_EVENT_TYPE

text \<open>The attribute objects, one record per kind; an optional chain such as
  \<^verbatim>\<open>attrs.input?.payloads\<close> is one optional field. The parser reads
  \<^verbatim>\<open>attrs.workflowType.name\<close> and \<^verbatim>\<open>attrs.activityType.name\<close> without such a chain:
  \<open>wes_workflowType\<close> and \<open>ats_activityType\<close> are the names, and \<open>None\<close> when the
  event has no \<^verbatim>\<open>workflowType\<close> or \<^verbatim>\<open>activityType\<close> object.\<close>

record WorkflowExecutionStartedAttrs =
  wes_workflowId :: string
  wes_firstExecutionRunId :: string
  wes_workflowType :: "string option"
  wes_input_payloads :: "payloads option"

record ActivityTaskScheduledAttrs =
  ats_activityId :: string
  ats_activityType :: "string option"
  ats_workflowTaskCompletedEventId :: event_id

record ActivityTaskCompletedAttrs =
  atc_result_payloads :: "payloads option"

record WorkflowExecution =
  we_workflowId :: string
  we_runId :: string

record ChildWorkflowExecutionCompletedAttrs =
  cwc_workflowExecution :: "WorkflowExecution option"

record ChildWorkflowExecutionStartedAttrs =
  cws_workflowExecution :: "WorkflowExecution option"
  cws_parentWorkflowExecution :: "WorkflowExecution option"
  cws_workflowType_name :: "string option"

record StartChildWorkflowExecutionInitiatedAttrs =
  sci_workflowId :: string
  sci_workflowType_name :: "string option"
  sci_workflowTaskCompletedEventId :: event_id

record 't Event =
  eventType :: EventType
  eventId :: event_id
  eventTime :: 't
  workflowExecutionStartedEventAttributes :: "WorkflowExecutionStartedAttrs option"
  activityTaskScheduledEventAttributes :: "ActivityTaskScheduledAttrs option"
  activityTaskStartedEventAttributes :: "unit option"
  activityTaskCompletedEventAttributes :: "ActivityTaskCompletedAttrs option"
  childWorkflowExecutionCompletedEventAttributes :: "ChildWorkflowExecutionCompletedAttrs option"
  childWorkflowExecutionStartedEventAttributes :: "ChildWorkflowExecutionStartedAttrs option"
  startChildWorkflowExecutionInitiatedEventAttributes :: "StartChildWorkflowExecutionInitiatedAttrs option"

datatype ItemType = T_workflow | T_childWorkflow | T_activity

datatype Status =
  RUNNING | SCHEDULED | STARTED | COMPLETED | FAILED | TIMED_OUT | CANCELED | TERMINATED

text \<open>A \<^verbatim>\<open>ChronologicalItem\<close> is a \<^verbatim>\<open>Workflow\<close> or an \<^verbatim>\<open>Activity\<close> object,
  told apart by its \<^verbatim>\<open>type\<close> tag. The loops of the parser read \<^verbatim>\<open>type\<close>,
  \<^verbatim>\<open>workflowId\<close> and \<^verbatim>\<open>status\<close> of any item, so an item is one record whose
  variant-specific properties are optional (absent properties are \<open>None\<close>).\<close>

record 't ChronologicalItem =
  type :: ItemType
  workflowId :: string
  status :: Status
  relatedEventIds :: "event_id list"
  startTime :: "'t option"
  endTime :: "'t option"
  payload :: "payloads option"
  workflowTaskCompletedEventId :: "event_id option"
  runId :: "string option"
  workflowType :: "string option"
  parentWorkflowId :: "string option"
  parentRunId :: "string option"
  activityId :: "string option"
  activityType :: "string option"
  scheduleTime :: "'t option"

text \<open>
  The parser's local variables. \<^verbatim>\<open>workflowMap\<close> and \<^verbatim>\<open>activityMap\<close> hold
  references to the very objects that are in \<^verbatim>\<open>chronologicalList\<close>; the list only
  grows at its end, so a reference is the object's index in the list, and a mutation
  through a reference is an update of the list at that index. An item is the record of
  its own properties. \<^verbatim>\<open>workflowMap\<close> is the map of the own properties of that object,
  that is, of the entries that the parser has assigned.
\<close>

record 't ParseState =
  chronologicalList :: "'t ChronologicalItem list"
  workflowMap :: "string \<rightharpoonup> nat"
  activityMap :: "string \<rightharpoonup> nat"
  workflowStack :: "string list"

definition initialState :: "'t ParseState" where
  "initialState =
     \<lparr>chronologicalList = [], workflowMap = Map.empty, activityMap = Map.empty,
      workflowStack = []\<rparr>"

section \<open>Outcomes\<close>

text \<open>What the service and the route handler can throw or catch.
  \<open>Error_FailedToFetch n\<close> is
  \<^verbatim>\<open>new Error(`Failed to fetch workflow history. Status: ${n}`)\<close>;
  \<open>Error_FetchRejected\<close> is a rejection of \<^verbatim>\<open>fetch\<close> itself (no response);
  \<open>NotFoundException\<close> is the class that the route handler imports from
  \<^verbatim>\<open>./excpetions\<close>; \<open>TypeError\<close> is what reading a property of \<^verbatim>\<open>undefined\<close>
  throws.\<close>

datatype Exception =
    Error_FailedToFetch nat
  | Error_FetchRejected
  | NotFoundException string
  | TypeError

text \<open>
  The outcome of a piece of code that can throw: \<open>returns x\<close> or \<open>throws error\<close>. The
  third outcome, \<open>None\<close>, is not one of the code: it marks the point where this model
  stops, see \<open>protoKey\<close> below.
\<close>

type_synonym 'a Outcome = "(Exception + 'a) option"

abbreviation returns :: "'a \<Rightarrow> 'a Outcome" where
  "returns x \<equiv> Some (Inr x)"

abbreviation throws :: "Exception \<Rightarrow> 'a Outcome" where
  "throws error \<equiv> Some (Inl error)"

section \<open>The parser\<close>

text \<open>
  \<^verbatim>\<open>workflowMap\<close> is created as \<^verbatim>\<open>{}\<close>, so besides its own properties it has the
  properties of \<^verbatim>\<open>Object.prototype\<close>: for each of the names below the test
  \<^verbatim>\<open>name in workflowMap\<close> is true from the start and \<^verbatim>\<open>workflowMap[name]\<close> is a
  function. Such a function is truthy and is not in the list; when the parser takes it
  for a workflow span and sets properties of it, the list, the map and the stack stay as
  they are.
\<close>

definition objectPrototypeNames :: "string list" where
  "objectPrototypeNames =
     [''constructor'', ''__defineGetter__'', ''__defineSetter__'', ''hasOwnProperty'',
      ''__lookupGetter__'', ''__lookupSetter__'', ''isPrototypeOf'',
      ''propertyIsEnumerable'', ''toString'', ''valueOf'', ''toLocaleString'']"

text \<open>
  The remaining property of \<^verbatim>\<open>Object.prototype\<close> is the accessor \<^verbatim>\<open>__proto__\<close>.
  \<^verbatim>\<open>workflowMap["__proto__"]\<close> is \<^verbatim>\<open>Object.prototype\<close> itself, and setting
  properties of it gives these properties to every object of the process;
  \<^verbatim>\<open>workflowMap["__proto__"] = wf\<close> creates no entry but makes \<^verbatim>\<open>wf\<close> the prototype
  of \<^verbatim>\<open>workflowMap\<close>. What the parser does after either step depends on more than the
  state modelled here, so the model stops (outcome \<open>None\<close>) at an event that makes the
  parser assign to this key or set properties of the object read under it. No statement
  below is about a history with such an event.
\<close>

definition protoKey :: string where
  "protoKey = ''__proto__''"

text \<open>\<^verbatim>\<open>key in workflowMap\<close>, for a key other than \<open>protoKey\<close>.\<close>

definition inWorkflowMap :: "'t ParseState \<Rightarrow> string \<Rightarrow> bool" where
  "inWorkflowMap s key = (workflowMap s key \<noteq> None \<or> key \<in> set objectPrototypeNames)"

text \<open>\<^verbatim>\<open>workflowStack[workflowStack.length - 1]\<close>: \<^verbatim>\<open>undefined\<close> on an empty stack.\<close>

definition stackTop :: "string list \<Rightarrow> string option" where
  "stackTop st = (if st = [] then None else Some (last st))"

text \<open>Indexing an object with \<^verbatim>\<open>undefined\<close> reads the property named
  \<^verbatim>\<open>"undefined"\<close>.\<close>

definition propertyKey :: "string option \<Rightarrow> string" where
  "propertyKey k = (case k of None \<Rightarrow> ''undefined'' | Some s \<Rightarrow> s)"

text \<open>A mutation of the object behind reference \<open>i\<close>. (The references that the parser
  holds are always positions of the list, see \<open>refsOk_parseEvents\<close> below.)\<close>

definition mutate :: "nat \<Rightarrow> ('a \<Rightarrow> 'a) \<Rightarrow> 'a list \<Rightarrow> 'a list" where
  "mutate i f xs = xs[i := f (xs ! i)]"

text \<open>\<^verbatim>\<open>for (let i = list.length - 1; i >= 0; i--) if (P(list[i])) { ...; break }\<close>:
  the index of the item the loop stops at, scanning the first \<open>n\<close> items backwards.\<close>

fun scanBack :: "('a \<Rightarrow> bool) \<Rightarrow> 'a list \<Rightarrow> nat \<Rightarrow> nat option" where
  "scanBack P xs 0 = None"
| "scanBack P xs (Suc i) = (if P (xs ! i) then Some i else scanBack P xs i)"

text \<open>The inner \<^verbatim>\<open>switch\<close> of the terminal workflow events has no default case: for
  another kind the status would stay. The \<^verbatim>\<open>switch\<close> that computes \<^verbatim>\<open>newStatus\<close> is
  only reached for the four terminal activity kinds.\<close>

definition workflowTerminalStatus :: "EventType \<Rightarrow> Status \<Rightarrow> Status" where
  "workflowTerminalStatus ty old =
     (case ty of
        WORKFLOW_EXECUTION_COMPLETED \<Rightarrow> COMPLETED
      | WORKFLOW_EXECUTION_FAILED \<Rightarrow> FAILED
      | WORKFLOW_EXECUTION_TIMED_OUT \<Rightarrow> TIMED_OUT
      | WORKFLOW_EXECUTION_CANCELED \<Rightarrow> CANCELED
      | WORKFLOW_EXECUTION_TERMINATED \<Rightarrow> TERMINATED
      | _ \<Rightarrow> old)"

definition activityNewStatus :: "EventType \<Rightarrow> Status" where
  "activityNewStatus ty =
     (case ty of
        ACTIVITY_TASK_COMPLETED \<Rightarrow> COMPLETED
      | ACTIVITY_TASK_FAILED \<Rightarrow> FAILED
      | ACTIVITY_TASK_TIMED_OUT \<Rightarrow> TIMED_OUT
      | _ \<Rightarrow> CANCELED)"

text \<open>A WorkflowExecutionStarted event. Building the object reads
  \<^verbatim>\<open>attrs.workflowType.name\<close> (a TypeError without that object); only then the object
  is assigned to \<^verbatim>\<open>workflowMap[attrs.workflowId]\<close>.\<close>

definition onWorkflowExecutionStarted ::
  "'t ParseState \<Rightarrow> 't Event \<Rightarrow> 't ParseState Outcome" where
  "onWorkflowExecutionStarted s e =
     (case workflowExecutionStartedEventAttributes e of
        None \<Rightarrow> returns s
      | Some attrs \<Rightarrow>
          if wes_workflowType attrs = None then throws TypeError
          else if wes_workflowId attrs = protoKey then None
          else
          let newWf = \<lparr>type = T_workflow,
                    workflowId = wes_workflowId attrs,
                    status = RUNNING,
                    relatedEventIds = [eventId e],
                    startTime = Some (eventTime e),
                    endTime = None,
                    payload = wes_input_payloads attrs,
                    workflowTaskCompletedEventId = None,
                    runId = Some (wes_firstExecutionRunId attrs),
                    workflowType = wes_workflowType attrs,
                    parentWorkflowId = None,
                    parentRunId = None,
                    activityId = None,
                    activityType = None,
                    scheduleTime = None\<rparr>
          in returns
               (s\<lparr>workflowMap :=
                    (workflowMap s)(wes_workflowId attrs \<mapsto> length (chronologicalList s)),
                  chronologicalList := chronologicalList s @ [newWf],
                  workflowStack := workflowStack s @ [wes_workflowId attrs]\<rparr>))"

text \<open>A terminal workflow event. \<^verbatim>\<open>workflowMap[topWorkflowId]\<close> is the entry of the
  stack top, if it has one; without an entry it is \<^verbatim>\<open>undefined\<close> or, for a name of
  \<open>objectPrototypeNames\<close>, a function, and in both cases the list stays as it is. (The
  stack never holds \<open>protoKey\<close>, see \<open>protoKey_not_on_stack\<close> below.)\<close>

definition onWorkflowExecutionClosed :: "'t ParseState \<Rightarrow> 't Event \<Rightarrow> 't ParseState" where
  "onWorkflowExecutionClosed s e =
     (let topWorkflowId = stackTop (workflowStack s);
          s' = (case workflowMap s (propertyKey topWorkflowId) of
                  None \<Rightarrow> s
                | Some topWf \<Rightarrow>
                    s\<lparr>chronologicalList :=
                        mutate topWf
                          (\<lambda>w. w\<lparr>endTime := Some (eventTime e),
                                 relatedEventIds := relatedEventIds w @ [eventId e],
                                 status := workflowTerminalStatus (eventType e) (status w)\<rparr>)
                          (chronologicalList s)\<rparr>)
      in s'\<lparr>workflowStack := butlast (workflowStack s')\<rparr>)"

text \<open>An ActivityTaskScheduled event. Building the object reads
  \<^verbatim>\<open>attrs.activityType.name\<close> (a TypeError without that object).\<close>

definition onActivityTaskScheduled ::
  "'t ParseState \<Rightarrow> 't Event \<Rightarrow> 't ParseState Outcome" where
  "onActivityTaskScheduled s e =
     (case (activityTaskScheduledEventAttributes e, stackTop (workflowStack s)) of
        (Some attrs, Some topWorkflowId) \<Rightarrow>
          if topWorkflowId = [] then returns s
          else if ats_activityType attrs = None then throws TypeError
          else
            let activityIdKey = topWorkflowId @ '':'' @ ats_activityId attrs;
                act = \<lparr>type = T_activity,
                       workflowId = topWorkflowId,
                       status = SCHEDULED,
                       relatedEventIds = [eventId e],
                       startTime = None,
                       endTime = None,
                       payload = None,
                       workflowTaskCompletedEventId = Some (ats_workflowTaskCompletedEventId attrs),
                       runId = None,
                       workflowType = None,
                       parentWorkflowId = None,
                       parentRunId = None,
                       activityId = Some (ats_activityId attrs),
                       activityType = ats_activityType attrs,
                       scheduleTime = Some (eventTime e)\<rparr>
            in returns
                 (s\<lparr>activityMap :=
                      (activityMap s)(activityIdKey \<mapsto> length (chronologicalList s)),
                    chronologicalList := chronologicalList s @ [act]\<rparr>)
      | _ \<Rightarrow> returns s)"

text \<open>The condition of the two backward scans: an activity of the workflow on top of the
  stack whose status is one of \<open>sts\<close>. \<^verbatim>\<open>item.workflowId === topWorkflowId\<close> is false
  for every item when the stack is empty.\<close>

definition openActivity :: "string option \<Rightarrow> Status list \<Rightarrow> 't ChronologicalItem \<Rightarrow> bool" where
  "openActivity topWorkflowId sts item =
     (type item = T_activity \<and> Some (workflowId item) = topWorkflowId \<and>
      status item \<in> set sts)"

definition onActivityTaskStarted :: "'t ParseState \<Rightarrow> 't Event \<Rightarrow> 't ParseState" where
  "onActivityTaskStarted s e =
     (case activityTaskStartedEventAttributes e of
        None \<Rightarrow> s
      | Some attrs \<Rightarrow>
          let topWorkflowId = stackTop (workflowStack s) in
          (case scanBack (openActivity topWorkflowId [SCHEDULED]) (chronologicalList s)
                  (length (chronologicalList s)) of
             None \<Rightarrow> s
           | Some i \<Rightarrow>
               s\<lparr>chronologicalList :=
                   mutate i
                     (\<lambda>item. item\<lparr>startTime := Some (eventTime e),
                                  status := STARTED,
                                  relatedEventIds := relatedEventIds item @ [eventId e]\<rparr>)
                     (chronologicalList s)\<rparr>))"

definition completedPayloads :: "'t Event \<Rightarrow> payloads option" where
  "completedPayloads e =
     (if eventType e = ACTIVITY_TASK_COMPLETED
      then (case activityTaskCompletedEventAttributes e of
              None \<Rightarrow> None
            | Some attrs \<Rightarrow> atc_result_payloads attrs)
      else None)"

definition onActivityTaskClosed :: "'t ParseState \<Rightarrow> 't Event \<Rightarrow> 't ParseState" where
  "onActivityTaskClosed s e =
     (let topWorkflowId = stackTop (workflowStack s);
          newStatus = activityNewStatus (eventType e)
      in case scanBack (openActivity topWorkflowId [STARTED, SCHEDULED]) (chronologicalList s)
                (length (chronologicalList s)) of
           None \<Rightarrow> s
         | Some i \<Rightarrow>
             s\<lparr>chronologicalList :=
                 mutate i
                   (\<lambda>item. item\<lparr>endTime := Some (eventTime e),
                                status := newStatus,
                                relatedEventIds := relatedEventIds item @ [eventId e],
                                payload := (case completedPayloads e of
                                              None \<Rightarrow> payload item
                                            | Some p \<Rightarrow> Some p)\<rparr>)
                   (chronologicalList s)\<rparr>)"

text \<open>A ChildWorkflowExecutionCompleted event. \<^verbatim>\<open>workflowMap[childWfId]\<close> is the
  entry of the identifier, if it has one; without an entry it is \<^verbatim>\<open>undefined\<close> or, for
  a name of \<open>objectPrototypeNames\<close>, a function whose properties are set, and in both
  cases the state stays as it is.\<close>

definition onChildWorkflowExecutionCompleted ::
  "'t ParseState \<Rightarrow> 't Event \<Rightarrow> 't ParseState Outcome" where
  "onChildWorkflowExecutionCompleted s e =
     (case childWorkflowExecutionCompletedEventAttributes e of
        None \<Rightarrow> returns s
      | Some attrs \<Rightarrow>
          (case cwc_workflowExecution attrs of
             None \<Rightarrow> returns s
           | Some ex \<Rightarrow>
               if we_workflowId ex = protoKey then None
               else
               (case workflowMap s (we_workflowId ex) of
                  None \<Rightarrow> returns s
                | Some childWorkflow \<Rightarrow>
                    returns
                      (s\<lparr>chronologicalList :=
                          mutate childWorkflow
                            (\<lambda>w. w\<lparr>endTime := Some (eventTime e),
                                   status := COMPLETED,
                                   relatedEventIds := relatedEventIds w @ [eventId e]\<rparr>)
                            (chronologicalList s)\<rparr>))))"

text \<open>A ChildWorkflowExecutionStarted event. When \<^verbatim>\<open>childWfId in workflowMap\<close>
  holds, \<^verbatim>\<open>workflowMap[childWfId]\<close> is the entry of the identifier or, for a name of
  \<open>objectPrototypeNames\<close> without an entry, a function whose properties are set.\<close>

definition onChildWorkflowExecutionStarted ::
  "'t ParseState \<Rightarrow> 't Event \<Rightarrow> 't ParseState Outcome" where
  "onChildWorkflowExecutionStarted s e =
     (case childWorkflowExecutionStartedEventAttributes e of
        None \<Rightarrow> returns s
      | Some attrs \<Rightarrow>
          (case cws_workflowExecution attrs of
             None \<Rightarrow> returns s
           | Some ex \<Rightarrow>
               let childWfId = we_workflowId ex; childRunId = we_runId ex in
               if childWfId = protoKey then None
               else if inWorkflowMap s childWfId
               then (case workflowMap s childWfId of
                       Some existingChildWorkflow \<Rightarrow>
                         returns
                           (s\<lparr>chronologicalList :=
                               mutate existingChildWorkflow
                                 (\<lambda>w. w\<lparr>startTime := Some (eventTime e),
                                        relatedEventIds := relatedEventIds w @ [eventId e]\<rparr>)
                                 (chronologicalList s)\<rparr>)
                     | None \<Rightarrow> returns s)
               else
                 let childWorkflow =
                       \<lparr>type = T_childWorkflow,
                        workflowId = childWfId,
                        status = RUNNING,
                        relatedEventIds = [eventId e],
                        startTime = Some (eventTime e),
                        endTime = None,
                        payload = None,
                        workflowTaskCompletedEventId = None,
                        runId = Some childRunId,
                        workflowType = cws_workflowType_name attrs,
                        parentWorkflowId =
                          map_option we_workflowId (cws_parentWorkflowExecution attrs),
                        parentRunId = map_option we_runId (cws_parentWorkflowExecution attrs),
                        activityId = None,
                        activityType = None,
                        scheduleTime = None\<rparr>
                 in returns
                      (s\<lparr>workflowMap :=
                           (workflowMap s)(childWfId \<mapsto> length (chronologicalList s)),
                         chronologicalList := chronologicalList s @ [childWorkflow],
                         workflowStack := workflowStack s @ [childWfId]\<rparr>)))"

text \<open>A StartChildWorkflowExecutionInitiated event, with the same test.\<close>

definition onStartChildWorkflowExecutionInitiated ::
  "'t ParseState \<Rightarrow> 't Event \<Rightarrow> 't ParseState Outcome" where
  "onStartChildWorkflowExecutionInitiated s e =
     (case startChildWorkflowExecutionInitiatedEventAttributes e of
        None \<Rightarrow> returns s
      | Some attrs \<Rightarrow>
          if sci_workflowId attrs = protoKey then None
          else if inWorkflowMap s (sci_workflowId attrs)
          then (case workflowMap s (sci_workflowId attrs) of
                  Some existingChildWorkflow \<Rightarrow>
                    returns
                      (s\<lparr>chronologicalList :=
                          mutate existingChildWorkflow
                            (\<lambda>w. w\<lparr>startTime := Some (eventTime e),
                                   relatedEventIds := relatedEventIds w @ [eventId e],
                                   workflowTaskCompletedEventId :=
                                     Some (sci_workflowTaskCompletedEventId attrs)\<rparr>)
                            (chronologicalList s)\<rparr>)
                | None \<Rightarrow> returns s)
          else
            let childWorkflow =
                  \<lparr>type = T_childWorkflow,
                   workflowId = sci_workflowId attrs,
                   status = RUNNING,
                   relatedEventIds = [eventId e],
                   startTime = Some (eventTime e),
                   endTime = None,
                   payload = None,
                   workflowTaskCompletedEventId =
                     Some (sci_workflowTaskCompletedEventId attrs),
                   runId = None,
                   workflowType = sci_workflowType_name attrs,
                   parentWorkflowId = Some (sci_workflowId attrs),
                   parentRunId = None,
                   activityId = None,
                   activityType = None,
                   scheduleTime = None\<rparr>
            in returns
                 (s\<lparr>workflowMap :=
                      (workflowMap s)(sci_workflowId attrs \<mapsto> length (chronologicalList s)),
                    chronologicalList := chronologicalList s @ [childWorkflow]\<rparr>))"

text \<open>The body of the \<^verbatim>\<open>for (const event of events)\<close> loop: the \<^verbatim>\<open>switch\<close>.\<close>

definition parseEvent :: "'t ParseState \<Rightarrow> 't Event \<Rightarrow> 't ParseState Outcome" where
  "parseEvent s e =
     (case eventType e of
        WORKFLOW_EXECUTION_STARTED \<Rightarrow> onWorkflowExecutionStarted s e
      | WORKFLOW_EXECUTION_COMPLETED \<Rightarrow> returns (onWorkflowExecutionClosed s e)
      | WORKFLOW_EXECUTION_FAILED \<Rightarrow> returns (onWorkflowExecutionClosed s e)
      | WORKFLOW_EXECUTION_TIMED_OUT \<Rightarrow> returns (onWorkflowExecutionClosed s e)
      | WORKFLOW_EXECUTION_CANCELED \<Rightarrow> returns (onWorkflowExecutionClosed s e)
      | WORKFLOW_EXECUTION_TERMINATED \<Rightarrow> returns (onWorkflowExecutionClosed s e)
      | ACTIVITY_TASK_SCHEDULED \<Rightarrow> onActivityTaskScheduled s e
      | ACTIVITY_TASK_STARTED \<Rightarrow> returns (onActivityTaskStarted s e)
      | ACTIVITY_TASK_COMPLETED \<Rightarrow> returns (onActivityTaskClosed s e)
      | ACTIVITY_TASK_FAILED \<Rightarrow> returns (onActivityTaskClosed s e)
      | ACTIVITY_TASK_TIMED_OUT \<Rightarrow> returns (onActivityTaskClosed s e)
      | ACTIVITY_TASK_CANCELED \<Rightarrow> returns (onActivityTaskClosed s e)
      | CHILD_WORKFLOW_EXECUTION_COMPLETED \<Rightarrow> onChildWorkflowExecutionCompleted s e
      | CHILD_WORKFLOW_EXECUTION_STARTED \<Rightarrow> onChildWorkflowExecutionStarted s e
      | START_CHILD_WORKFLOW_EXECUTION_INITIATED \<Rightarrow> onStartChildWorkflowExecutionInitiated s e
      | OTHER_EVENT_TYPE \<Rightarrow> returns s)"

text \<open>The loop over the events: it ends with the first event that throws.\<close>

fun parseEvents :: "'t ParseState \<Rightarrow> 't Event list \<Rightarrow> 't ParseState Outcome" where
  "parseEvents s [] = returns s"
| "parseEvents s (e # es) =
     (case parseEvent s e of
        Some (Inr s') \<Rightarrow> parseEvents s' es
      | Some (Inl error) \<Rightarrow> throws error
      | None \<Rightarrow> None)"

definition parseTemporalHistory :: "'t Event list \<Rightarrow> 't ChronologicalItem list Outcome" where
  "parseTemporalHistory events =
     (case parseEvents initialState events of
        Some (Inr s) \<Rightarrow> returns (chronologicalList s)
      | Some (Inl error) \<Rightarrow> throws error
      | None \<Rightarrow> None)"

section \<open>Fetching histories\<close>

text \<open>
  One HTTP response of the upstream, as far as \<^verbatim>\<open>getWorkflowData\<close> reads it:
  \<^verbatim>\<open>response.ok\<close>, \<^verbatim>\<open>response.status\<close>, and of the body
  \<^verbatim>\<open>data.history.events\<close> and \<^verbatim>\<open>data.nextPageToken\<close>.
\<close>

record 't Response =
  ok :: bool
  httpStatus :: nat
  events :: "'t Event list"
  nextPageToken :: "string option"

text \<open>A token is truthy when it is a non-empty string.\<close>

definition truthy :: "string option \<Rightarrow> bool" where
  "truthy t = (case t of None \<Rightarrow> False | Some x \<Rightarrow> x \<noteq> [])"

text \<open>The request that one iteration issues is determined by the token appended to
  \<^verbatim>\<open>baseUrl\<close> (\<open>None\<close>: the bare \<^verbatim>\<open>baseUrl\<close>).\<close>

definition requestFor :: "string option \<Rightarrow> string option" where
  "requestFor t = (if truthy t then t else None)"

text \<open>
  The \<^verbatim>\<open>do ... while (nextPageToken)\<close> loop. The upstream is the list of responses
  that it gives to the successive requests; when it gives none, \<^verbatim>\<open>fetch\<close> rejects.
  Every iteration consumes one response, so the list also bounds the iterations (an
  upstream that hands out tokens for ever is not represented). The loop returns the
  requests it has issued together with its outcome.
\<close>

fun getWorkflowDataLoop ::
  "'t Response list \<Rightarrow> string option \<Rightarrow> 't Event list \<Rightarrow> string option list \<Rightarrow>
   string option list \<times> (Exception + 't Event list)" where
  "getWorkflowDataLoop [] tok allEvents reqs = (reqs @ [requestFor tok], Inl Error_FetchRejected)"
| "getWorkflowDataLoop (response # rest) tok allEvents reqs =
     (if \<not> ok response
      then (reqs @ [requestFor tok], Inl (Error_FailedToFetch (httpStatus response)))
      else if truthy (nextPageToken response)
      then getWorkflowDataLoop rest (nextPageToken response) (allEvents @ events response)
             (reqs @ [requestFor tok])
      else (reqs @ [requestFor tok], Inr (allEvents @ events response)))"

definition getWorkflowDataRequests :: "'t Response list \<Rightarrow> string option list" where
  "getWorkflowDataRequests responses = fst (getWorkflowDataLoop responses None [] [])"

definition getWorkflowData :: "'t Response list \<Rightarrow> Exception + 't Event list" where
  "getWorkflowData responses = snd (getWorkflowDataLoop responses None [] [])"

section \<open>Assembling the root workflow and its children\<close>

record 't TemporalWorkflowChronologicalItems =
  rootWorkflow :: "'t ChronologicalItem list"
  childWorkflows :: "string \<rightharpoonup> 't ChronologicalItem list"

text \<open>The upstream as \<^verbatim>\<open>getRootWorkflowData\<close> sees it: the responses it gives for
  the history of a workflow identifier in a namespace (the same ones whenever it is
  asked).\<close>

type_synonym 't Upstream = "string \<Rightarrow> string \<Rightarrow> 't Response list"

text \<open>The \<^verbatim>\<open>for (const item of rootWorkflowChronologicalItems)\<close> loop with its
  \<^verbatim>\<open>try\<close>/\<^verbatim>\<open>catch\<close>, which covers the fetch of the child's history and its
  parsing: whatever either of them throws, the loop goes on with the next item.\<close>

fun fetchChildWorkflows ::
  "'t Upstream \<Rightarrow> string \<Rightarrow> 't ChronologicalItem list \<Rightarrow>
   (string \<rightharpoonup> 't ChronologicalItem list) \<Rightarrow>
   (string \<rightharpoonup> 't ChronologicalItem list) option" where
  "fetchChildWorkflows upstream namespace [] childWorkflowsMap = Some childWorkflowsMap"
| "fetchChildWorkflows upstream namespace (item # items) childWorkflowsMap =
     (if type item = T_childWorkflow
      then (case getWorkflowData (upstream namespace (workflowId item)) of
              Inr childWorkflowHistoryResponse \<Rightarrow>
                (case parseTemporalHistory childWorkflowHistoryResponse of
                   Some (Inr parsed) \<Rightarrow>
                     fetchChildWorkflows upstream namespace items
                       (childWorkflowsMap(workflowId item \<mapsto> parsed))
                 | Some (Inl error) \<Rightarrow>
                     fetchChildWorkflows upstream namespace items childWorkflowsMap
                 | None \<Rightarrow> None)
            | Inl error \<Rightarrow> fetchChildWorkflows upstream namespace items childWorkflowsMap)
      else fetchChildWorkflows upstream namespace items childWorkflowsMap)"

text \<open>The fetch of the root history and its parsing are outside the
  \<^verbatim>\<open>try\<close>/\<^verbatim>\<open>catch\<close>: what they throw, \<^verbatim>\<open>getRootWorkflowData\<close> throws.\<close>

definition getRootWorkflowData ::
  "'t Upstream \<Rightarrow> string \<Rightarrow> string \<Rightarrow> 't TemporalWorkflowChronologicalItems Outcome" where
  "getRootWorkflowData upstream namespace rootWorkflowId =
     (case getWorkflowData (upstream namespace rootWorkflowId) of
        Inl error \<Rightarrow> throws error
      | Inr historyResponse \<Rightarrow>
          (case parseTemporalHistory historyResponse of
             None \<Rightarrow> None
           | Some (Inl error) \<Rightarrow> throws error
           | Some (Inr rootWorkflowChronologicalItems) \<Rightarrow>
               (case fetchChildWorkflows upstream namespace rootWorkflowChronologicalItems
                       Map.empty of
                  None \<Rightarrow> None
                | Some childWorkflowsMap \<Rightarrow>
                    returns \<lparr>rootWorkflow = rootWorkflowChronologicalItems,
                             childWorkflows = childWorkflowsMap\<rparr>)))"

section \<open>The route \<^verbatim>\<open>GET /workflow\<close>\<close>

record WorkflowQuery =
  q_id :: "string option"
  q_namespace :: "string option"
  q_runId :: "string option"

datatype 't Body =
    Data "'t TemporalWorkflowChronologicalItems"
  | MissingParameters
  | ErrorMessage Exception

text \<open>The handler \<^verbatim>\<open>app.get("/workflow", ...)\<close> with the \<^verbatim>\<open>try\<close>/\<^verbatim>\<open>catch\<close>:
  the status code and the JSON body of its answer. It passes \<^verbatim>\<open>runId\<close> as a third
  argument, which \<^verbatim>\<open>getRootWorkflowData\<close> does not have and ignores. The answer is
  \<open>None\<close> where the model of the parser stops.\<close>

definition workflowRoute :: "'t Upstream \<Rightarrow> WorkflowQuery \<Rightarrow> (nat \<times> 't Body) option" where
  "workflowRoute upstream q =
     (if \<not> truthy (q_id q) \<or> \<not> truthy (q_namespace q) \<or> \<not> truthy (q_runId q)
      then Some (400, MissingParameters)
      else
        (case getRootWorkflowData upstream (the (q_namespace q)) (the (q_id q)) of
           None \<Rightarrow> None
         | Some (Inr data) \<Rightarrow> Some (200, Data data)
         | Some (Inl error) \<Rightarrow>
             (case error of
                NotFoundException msg \<Rightarrow> Some (404, ErrorMessage error)
              | _ \<Rightarrow> Some (500, ErrorMessage error))))"

section \<open>Sample events\<close>

text \<open>Events with natural numbers as times, for the concrete histories below.\<close>

definition sampleEvent :: "EventType \<Rightarrow> nat \<Rightarrow> nat \<Rightarrow> nat Event" where
  "sampleEvent ty i t =
     \<lparr>eventType = ty, eventId = i, eventTime = t,
      workflowExecutionStartedEventAttributes = None,
      activityTaskScheduledEventAttributes = None,
      activityTaskStartedEventAttributes = None,
      activityTaskCompletedEventAttributes = None,
      childWorkflowExecutionCompletedEventAttributes = None,
      childWorkflowExecutionStartedEventAttributes = None,
      startChildWorkflowExecutionInitiatedEventAttributes = None\<rparr>"

definition workflowStarted :: "string \<Rightarrow> nat \<Rightarrow> nat \<Rightarrow> nat Event" where
  "workflowStarted w i t =
     (sampleEvent WORKFLOW_EXECUTION_STARTED i t)
       \<lparr>workflowExecutionStartedEventAttributes :=
          Some \<lparr>wes_workflowId = w, wes_firstExecutionRunId = ''run'',
                wes_workflowType = Some ''Type'', wes_input_payloads = None\<rparr>\<rparr>"

text \<open>A WorkflowExecutionStarted event without the \<^verbatim>\<open>workflowType\<close> object.\<close>

definition workflowStartedUntyped :: "string \<Rightarrow> nat \<Rightarrow> nat \<Rightarrow> nat Event" where
  "workflowStartedUntyped w i t =
     (sampleEvent WORKFLOW_EXECUTION_STARTED i t)
       \<lparr>workflowExecutionStartedEventAttributes :=
          Some \<lparr>wes_workflowId = w, wes_firstExecutionRunId = ''run'',
                wes_workflowType = None, wes_input_payloads = None\<rparr>\<rparr>"

definition activityScheduled :: "string \<Rightarrow> nat \<Rightarrow> nat \<Rightarrow> nat Event" where
  "activityScheduled a i t =
     (sampleEvent ACTIVITY_TASK_SCHEDULED i t)
       \<lparr>activityTaskScheduledEventAttributes :=
          Some \<lparr>ats_activityId = a, ats_activityType = Some ''Act'',
                ats_workflowTaskCompletedEventId = 0\<rparr>\<rparr>"

definition activityStarted :: "nat \<Rightarrow> nat \<Rightarrow> nat Event" where
  "activityStarted i t =
     (sampleEvent ACTIVITY_TASK_STARTED i t)\<lparr>activityTaskStartedEventAttributes := Some ()\<rparr>"

definition childStarted :: "string \<Rightarrow> nat \<Rightarrow> nat \<Rightarrow> nat Event" where
  "childStarted w i t =
     (sampleEvent CHILD_WORKFLOW_EXECUTION_STARTED i t)
       \<lparr>childWorkflowExecutionStartedEventAttributes :=
          Some \<lparr>cws_workflowExecution = Some \<lparr>we_workflowId = w, we_runId = ''run''\<rparr>,
                cws_parentWorkflowExecution = None, cws_workflowType_name = None\<rparr>\<rparr>"

definition childCompleted :: "string \<Rightarrow> nat \<Rightarrow> nat \<Rightarrow> nat Event" where
  "childCompleted w i t =
     (sampleEvent CHILD_WORKFLOW_EXECUTION_COMPLETED i t)
       \<lparr>childWorkflowExecutionCompletedEventAttributes :=
          Some \<lparr>cwc_workflowExecution = Some \<lparr>we_workflowId = w, we_runId = ''run''\<rparr>\<rparr>\<rparr>"

definition childInitiated :: "string \<Rightarrow> nat \<Rightarrow> nat \<Rightarrow> nat Event" where
  "childInitiated w i t =
     (sampleEvent START_CHILD_WORKFLOW_EXECUTION_INITIATED i t)
       \<lparr>startChildWorkflowExecutionInitiatedEventAttributes :=
          Some \<lparr>sci_workflowId = w, sci_workflowType_name = None,
                sci_workflowTaskCompletedEventId = 0\<rparr>\<rparr>"

text \<open>A successful response with the given events and continuation token, and a
  failing response with the given status.\<close>

definition samplePage :: "nat Event list \<Rightarrow> string option \<Rightarrow> nat Response" where
  "samplePage evs tok = \<lparr>ok = True, httpStatus = 200, events = evs, nextPageToken = tok\<rparr>"

definition sampleFailure :: "nat \<Rightarrow> nat Response" where
  "sampleFailure code = \<lparr>ok = False, httpStatus = code, events = [], nextPageToken = None\<rparr>"

text \<open>An upstream that knows the root workflow \<open>A\<close>, whose history starts the children
  \<open>B\<close> and \<open>C\<close>, the root workflow \<open>R\<close>, whose history starts the children \<open>C\<close> and
  \<open>D\<close>, and the children \<open>C\<close> and \<open>D\<close>; the history of \<open>D\<close> makes the parser throw.
  Every other history request fails with status 404.\<close>

definition sampleUpstream :: "nat Upstream" where
  "sampleUpstream namespace wid =
     (if wid = ''A''
      then [samplePage [workflowStarted ''A'' 1 1, childInitiated ''B'' 2 2] (Some ''t1''),
            samplePage [childInitiated ''C'' 3 3] None]
      else if wid = ''R''
      then [samplePage [workflowStarted ''R'' 1 1, childInitiated ''C'' 2 2,
                        childInitiated ''D'' 3 3] None]
      else if wid = ''C''
      then [samplePage [workflowStarted ''C'' 1 4] None]
      else if wid = ''D''
      then [samplePage [workflowStartedUntyped ''D'' 1 5] None]
      else [sampleFailure 404])"

definition sampleQuery :: "string \<Rightarrow> WorkflowQuery" where
  "sampleQuery wid = \<lparr>q_id = Some wid, q_namespace = Some ''default'', q_runId = Some ''run''\<rparr>"

section \<open>Notions used in the statements\<close>

subsection \<open>Event kinds\<close>

definition workflowClosedTypes :: "EventType list" where
  "workflowClosedTypes =
     [WORKFLOW_EXECUTION_COMPLETED, WORKFLOW_EXECUTION_FAILED, WORKFLOW_EXECUTION_TIMED_OUT,
      WORKFLOW_EXECUTION_CANCELED, WORKFLOW_EXECUTION_TERMINATED]"

definition activityClosedTypes :: "EventType list" where
  "activityClosedTypes =
     [ACTIVITY_TASK_COMPLETED, ACTIVITY_TASK_FAILED, ACTIVITY_TASK_TIMED_OUT,
      ACTIVITY_TASK_CANCELED]"


subsection \<open>Resolution of activity events\<close>

text \<open>The position of the most recently created span that satisfies the scan condition,
  and the absence of any such span.\<close>

definition lastOpenActivity ::
  "string option \<Rightarrow> Status list \<Rightarrow> 't ChronologicalItem list \<Rightarrow> nat \<Rightarrow> bool" where
  "lastOpenActivity owner sts items i =
     (i < length items \<and> openActivity owner sts (items ! i) \<and>
      (\<forall>item \<in> set (drop (Suc i) items). \<not> openActivity owner sts item))"

definition noOpenActivity ::
  "string option \<Rightarrow> Status list \<Rightarrow> 't ChronologicalItem list \<Rightarrow> bool" where
  "noOpenActivity owner sts items = (\<forall>item \<in> set items. \<not> openActivity owner sts item)"

text \<open>The reading of the specification: the candidates are the open spans of the pair
  (owning workflow, activity identifier).\<close>

definition openActivityOfPair ::
  "string option \<Rightarrow> string \<Rightarrow> Status list \<Rightarrow> 't ChronologicalItem \<Rightarrow> bool" where
  "openActivityOfPair owner aid sts item =
     (openActivity owner sts item \<and> activityId item = Some aid)"

subsection \<open>Child workflows discovered in a timeline\<close>

definition childWorkflowIds :: "'t ChronologicalItem list \<Rightarrow> string list" where
  "childWorkflowIds items =
     map workflowId (filter (\<lambda>item. type item = T_childWorkflow) items)"

subsection \<open>How items evolve\<close>

definition isTerminal :: "Status \<Rightarrow> bool" where
  "isTerminal st = (st \<in> set [COMPLETED, FAILED, TIMED_OUT, CANCELED, TERMINATED])"

text \<open>What identifies an item: its kind, its (owning) workflow identifier and its activity
  identifier.\<close>

definition itemKey :: "'t ChronologicalItem \<Rightarrow> ItemType \<times> string \<times> string option" where
  "itemKey item = (type item, workflowId item, activityId item)"

text \<open>\<open>evolves a b\<close>: \<open>b\<close> is a later state of the item \<open>a\<close>: the same item, still terminal
  if \<open>a\<close> was, still with an end time if \<open>a\<close> had one.\<close>

definition evolves :: "'t ChronologicalItem \<Rightarrow> 't ChronologicalItem \<Rightarrow> bool" where
  "evolves a b =
     (itemKey a = itemKey b \<and>
      (isTerminal (status a) \<longrightarrow> isTerminal (status b)) \<and>
      (endTime a \<noteq> None \<longrightarrow> endTime b \<noteq> None))"

text \<open>\<open>growsFrom xs ys\<close>: the list \<open>ys\<close> consists of later states of the items of \<open>xs\<close>, at
  their positions, followed by new items.\<close>

definition growsFrom :: "'t ChronologicalItem list \<Rightarrow> 't ChronologicalItem list \<Rightarrow> bool" where
  "growsFrom xs ys = (length xs \<le> length ys \<and> list_all2 evolves xs (take (length xs) ys))"

subsection \<open>Workflow spans and the registry\<close>




text \<open>The same for one workflow identifier \<open>k\<close>: while \<open>events\<close> are processed from state
  \<open>s\<close>, no WorkflowExecutionStarted event (with attributes) names \<open>k\<close> when \<open>k\<close> is
  registered.\<close>

definition startIsFreshFor :: "string \<Rightarrow> 't ParseState \<Rightarrow> 't Event \<Rightarrow> bool" where
  "startIsFreshFor k s e =
     (if eventType e = WORKFLOW_EXECUTION_STARTED
      then (case workflowExecutionStartedEventAttributes e of
              None \<Rightarrow> True
            | Some attrs \<Rightarrow> wes_workflowId attrs \<noteq> k \<or> workflowMap s k = None)
      else True)"

fun startsFreshFor :: "string \<Rightarrow> 't ParseState \<Rightarrow> 't Event list \<Rightarrow> bool" where
  "startsFreshFor k s [] = True"
| "startsFreshFor k s (e # es) =
     (startIsFreshFor k s e \<and>
      (case parseEvent s e of Some (Inr s') \<Rightarrow> startsFreshFor k s' es | _ \<Rightarrow> True))"

text \<open>The references are sound: an entry of \<^verbatim>\<open>workflowMap\<close> is the position of a
  workflow span with the identifier of the entry.\<close>

definition refsOk :: "'t ParseState \<Rightarrow> bool" where
  "refsOk s =
     (\<forall>k i. workflowMap s k = Some i \<longrightarrow>
        i < length (chronologicalList s) \<and> type (chronologicalList s ! i) \<noteq> T_activity \<and>
        workflowId (chronologicalList s ! i) = k)"


subsection \<open>Events that write the times of a workflow span\<close>

text \<open>The entry, if any, that a terminal workflow event (through the stack top) or a
  ChildWorkflowExecutionCompleted event (through its workflow identifier) resolves to:
  the span whose end time and status the event sets.\<close>

definition closeTarget :: "'t ParseState \<Rightarrow> 't Event \<Rightarrow> nat option" where
  "closeTarget s e =
     (if eventType e \<in> set workflowClosedTypes
      then workflowMap s (propertyKey (stackTop (workflowStack s)))
      else if eventType e = CHILD_WORKFLOW_EXECUTION_COMPLETED
      then (case childWorkflowExecutionCompletedEventAttributes e of
              None \<Rightarrow> None
            | Some attrs \<Rightarrow>
                (case cwc_workflowExecution attrs of
                   None \<Rightarrow> None
                 | Some ex \<Rightarrow> workflowMap s (we_workflowId ex)))
      else None)"

text \<open>The status that such an event sets.\<close>

definition closingStatus :: "EventType \<Rightarrow> Status" where
  "closingStatus ty =
     (if ty = WORKFLOW_EXECUTION_FAILED then FAILED
      else if ty = WORKFLOW_EXECUTION_TIMED_OUT then TIMED_OUT
      else if ty = WORKFLOW_EXECUTION_CANCELED then CANCELED
      else if ty = WORKFLOW_EXECUTION_TERMINATED then TERMINATED
      else COMPLETED)"

text \<open>The entry, if any, that a ChildWorkflowExecutionStarted or
  StartChildWorkflowExecutionInitiated event resolves to: the span whose start time the
  event sets again.\<close>

definition restartTarget :: "'t ParseState \<Rightarrow> 't Event \<Rightarrow> nat option" where
  "restartTarget s e =
     (if eventType e = CHILD_WORKFLOW_EXECUTION_STARTED
      then (case childWorkflowExecutionStartedEventAttributes e of
              None \<Rightarrow> None
            | Some attrs \<Rightarrow>
                (case cws_workflowExecution attrs of
                   None \<Rightarrow> None
                 | Some ex \<Rightarrow> workflowMap s (we_workflowId ex)))
      else if eventType e = START_CHILD_WORKFLOW_EXECUTION_INITIATED
      then (case startChildWorkflowExecutionInitiatedEventAttributes e of
              None \<Rightarrow> None
            | Some attrs \<Rightarrow> workflowMap s (sci_workflowId attrs))
      else None)"

text \<open>\<open>lastClose s events i\<close>: the last of the \<open>events\<close>, processed from state \<open>s\<close>, that
  resolves to the span at position \<open>i\<close> as a terminal workflow event or a
  ChildWorkflowExecutionCompleted event.\<close>

fun lastClose :: "'t ParseState \<Rightarrow> 't Event list \<Rightarrow> nat \<Rightarrow> 't Event option" where
  "lastClose s [] i = None"
| "lastClose s (e # es) i =
     (case parseEvent s e of
        Some (Inr s') \<Rightarrow>
          (case lastClose s' es i of
             Some e' \<Rightarrow> Some e'
           | None \<Rightarrow> if closeTarget s e = Some i then Some e else None)
      | _ \<Rightarrow> None)"

subsection \<open>Start and end times\<close>

definition timesOrdered :: "('t::linorder) ChronologicalItem \<Rightarrow> bool" where
  "timesOrdered item =
     (case (startTime item, endTime item) of
        (Some a, Some b) \<Rightarrow> a \<le> b
      | _ \<Rightarrow> True)"

text \<open>
  \<open>lateStarts s events late\<close>: the positions of the spans that were started again after
  their end. A position is added when a ChildWorkflowExecutionStarted or
  StartChildWorkflowExecutionInitiated event resolves to a span whose end time is earlier
  than the time of the event, and is removed when a terminal workflow event or a
  ChildWorkflowExecutionCompleted event resolves to the span.
\<close>

definition lateStartStep ::
  "('t::linorder) ParseState \<Rightarrow> 't Event \<Rightarrow> nat list \<Rightarrow> nat list" where
  "lateStartStep s e late =
     (case restartTarget s e of
        Some i \<Rightarrow>
          (case endTime (chronologicalList s ! i) of
             None \<Rightarrow> late
           | Some t \<Rightarrow> if t < eventTime e then List.insert i late else late)
      | None \<Rightarrow>
          (case closeTarget s e of
             Some i \<Rightarrow> removeAll i late
           | None \<Rightarrow> late))"

fun lateStarts :: "('t::linorder) ParseState \<Rightarrow> 't Event list \<Rightarrow> nat list \<Rightarrow> nat list" where
  "lateStarts s [] late = late"
| "lateStarts s (e # es) late =
     (case parseEvent s e of
        Some (Inr s') \<Rightarrow> lateStarts s' es (lateStartStep s e late)
      | _ \<Rightarrow> late)"

text \<open>Invariants of the parser's state that the time order rests on: no time of an item
  is later than \<open>b\<close>; an activity span that is still open has no end time; the workflow
  spans whose times are out of order are those at the positions \<open>late\<close>.\<close>

definition notAfter :: "('t::linorder) \<Rightarrow> 't ChronologicalItem \<Rightarrow> bool" where
  "notAfter b item =
     ((case startTime item of None \<Rightarrow> True | Some a \<Rightarrow> a \<le> b) \<and>
      (case endTime item of None \<Rightarrow> True | Some a \<Rightarrow> a \<le> b))"

definition boundedBy :: "('t::linorder) \<Rightarrow> 't ParseState \<Rightarrow> bool" where
  "boundedBy b s = (\<forall>item \<in> set (chronologicalList s). notAfter b item)"

definition activityOk :: "('t::linorder) ChronologicalItem \<Rightarrow> bool" where
  "activityOk item =
     (type item = T_activity \<longrightarrow>
        timesOrdered item \<and> (status item \<in> set [STARTED, SCHEDULED] \<longrightarrow> endTime item = None))"

definition activitiesOk :: "('t::linorder) ParseState \<Rightarrow> bool" where
  "activitiesOk s = (\<forall>item \<in> set (chronologicalList s). activityOk item)"

definition workflowsOk :: "('t::linorder) ParseState \<Rightarrow> nat list \<Rightarrow> bool" where
  "workflowsOk s late =
     (\<forall>i < length (chronologicalList s).
        type (chronologicalList s ! i) \<noteq> T_activity \<longrightarrow>
        (timesOrdered (chronologicalList s ! i) \<longleftrightarrow> i \<notin> set late))"

subsection \<open>Looking at an outcome\<close>

text \<open>\<open>onOutput f r\<close>: what \<open>f\<close> says about the value that \<open>r\<close> returns; a throw and the
  stop of the model are passed on.\<close>

definition onOutput :: "('a \<Rightarrow> 'b) \<Rightarrow> 'a Outcome \<Rightarrow> 'b Outcome" where
  "onOutput f r = map_option (map_sum id f) r"

subsection \<open>The timeline of a child\<close>

text \<open>\<open>childTimeline upstream ns c\<close>: the parsed history of child \<open>c\<close>, when both the fetch
  and the parsing succeed; \<open>None\<close> when one of them throws.\<close>

definition childTimeline ::
  "'t Upstream \<Rightarrow> string \<Rightarrow> string \<Rightarrow> 't ChronologicalItem list option" where
  "childTimeline upstream ns c =
     (case getWorkflowData (upstream ns c) of
        Inl error \<Rightarrow> None
      | Inr h \<Rightarrow>
          (case parseTemporalHistory h of
             Some (Inr items) \<Rightarrow> Some items
           | _ \<Rightarrow> None))"

text \<open>\<open>childInModel upstream ns c\<close>: the history of child \<open>c\<close>, if it can be fetched, is
  one on which the model of the parser does not stop.\<close>

definition childInModel :: "'t Upstream \<Rightarrow> string \<Rightarrow> string \<Rightarrow> bool" where
  "childInModel upstream ns c =
     (case getWorkflowData (upstream ns c) of
        Inl error \<Rightarrow> True
      | Inr h \<Rightarrow> parseTemporalHistory h \<noteq> None)"

section \<open>Evaluation rules\<close>

lemmas sample_defs =
  sampleEvent_def workflowStarted_def workflowStartedUntyped_def activityScheduled_def
  activityStarted_def childStarted_def childCompleted_def childInitiated_def

lemmas handler_defs =
  parseEvent_def onWorkflowExecutionStarted_def onWorkflowExecutionClosed_def
  onActivityTaskScheduled_def onActivityTaskStarted_def onActivityTaskClosed_def
  onChildWorkflowExecutionCompleted_def onChildWorkflowExecutionStarted_def
  onStartChildWorkflowExecutionInitiated_def

lemmas eval_defs =
  sample_defs handler_defs parseTemporalHistory_def initialState_def stackTop_def
  propertyKey_def mutate_def openActivity_def workflowTerminalStatus_def
  activityNewStatus_def completedPayloads_def protoKey_def inWorkflowMap_def
  objectPrototypeNames_def Let_def

section \<open>Basic facts about the loop helpers\<close>

lemma scanBack_None_iff: "scanBack P xs n = None \<longleftrightarrow> (\<forall>j<n. \<not> P (xs ! j))"
  by (induction n) (auto simp: less_Suc_eq)

lemma scanBack_Some_iff:
  "scanBack P xs n = Some i \<longleftrightarrow>
     i < n \<and> P (xs ! i) \<and> (\<forall>j. i < j \<and> j < n \<longrightarrow> \<not> P (xs ! j))"
proof (induction n)
  case 0
  then show ?case by simp
next
  case (Suc n)
  show ?case
  proof (cases "P (xs ! n)")
    case True
    then show ?thesis
      by (auto simp: less_Suc_eq)
  next
    case False
    then show ?thesis
      using Suc by (auto simp: less_Suc_eq)
  qed
qed

lemma length_mutate [simp]: "length (mutate i f xs) = length xs"
  by (simp add: mutate_def)

lemma nth_mutate:
  "j < length xs \<Longrightarrow> mutate i f xs ! j = (if j = i then f (xs ! j) else xs ! j)"
  by (simp add: mutate_def nth_list_update)

lemma parseEvent_workflowClosed:
  "eventType e \<in> set workflowClosedTypes \<Longrightarrow>
   parseEvent s e = returns (onWorkflowExecutionClosed s e)"
  by (auto simp: workflowClosedTypes_def parseEvent_def)

lemma parseEvent_activityClosed:
  "eventType e \<in> set activityClosedTypes \<Longrightarrow>
   parseEvent s e = returns (onActivityTaskClosed s e)"
  by (auto simp: activityClosedTypes_def parseEvent_def)

lemma parseEvents_append:
  "parseEvents s (xs @ ys) =
     (case parseEvents s xs of
        Some (Inr s') \<Rightarrow> parseEvents s' ys
      | Some (Inl error) \<Rightarrow> throws error
      | None \<Rightarrow> None)"
  by (induction xs arbitrary: s) (auto split: option.splits sum.splits)


lemma parseEvents_Cons_returns:
  "parseEvents s (e # es) = returns s2 \<longleftrightarrow>
     (\<exists>s1. parseEvent s e = returns s1 \<and> parseEvents s1 es = returns s2)"
  by (auto split: option.splits sum.splits)


lemma parseTemporalHistory_returns:
  "parseTemporalHistory evs = returns out \<longleftrightarrow>
     (\<exists>s. parseEvents initialState evs = returns s \<and> out = chronologicalList s)"
  by (auto simp: parseTemporalHistory_def split: option.splits sum.splits)

section \<open>Terminal workflow events and the scope stack\<close>

text \<open>
  Claim C4, as stated in the specification: every terminal workflow event removes exactly
  one entry from the scope stack. On an empty stack \<^verbatim>\<open>workflowStack.pop()\<close> removes
  nothing: the history that consists of one WorkflowExecutionCompleted event ends in the
  state it started from, with the empty stack.
\<close>

theorem C4_empty_stack_counterexample:
  "workflowStack (initialState :: nat ParseState) = [] \<and>
   parseEvents initialState [sampleEvent WORKFLOW_EXECUTION_COMPLETED 1 1] =
     returns initialState"
  by (simp add: eval_defs)

text \<open>
  Claim C4, amended: a terminal workflow event pops the scope stack once, whether or not a
  span is found for its top: the top entry is removed when the stack is not empty, and an
  empty stack stays empty. The span is looked up under the stack top (under the key
  \<^verbatim>\<open>"undefined"\<close> when the stack is empty); when none is found the list is unchanged,
  and when one is found its end time is the event's time, the event id is appended to its
  related event ids, and its status is the one of the event's kind. The event never
  throws.
\<close>

theorem C4_terminal_event_pops_scope:
  assumes "eventType e \<in> set workflowClosedTypes"
  shows "\<exists>s'. parseEvent s e = returns s' \<and>
         workflowStack s' = butlast (workflowStack s) \<and>
         (workflowStack s \<noteq> [] \<longrightarrow>
            Suc (length (workflowStack s')) = length (workflowStack s)) \<and>
         (workflowStack s = [] \<longrightarrow> workflowStack s' = []) \<and>
         (workflowMap s (propertyKey (stackTop (workflowStack s))) = None \<longrightarrow>
            chronologicalList s' = chronologicalList s) \<and>
         (\<forall>i. workflowMap s (propertyKey (stackTop (workflowStack s))) = Some i \<and>
               i < length (chronologicalList s) \<longrightarrow>
            endTime (chronologicalList s' ! i) = Some (eventTime e) \<and>
            relatedEventIds (chronologicalList s' ! i) =
              relatedEventIds (chronologicalList s ! i) @ [eventId e] \<and>
            status (chronologicalList s' ! i) =
              (if eventType e = WORKFLOW_EXECUTION_COMPLETED then COMPLETED
               else if eventType e = WORKFLOW_EXECUTION_FAILED then FAILED
               else if eventType e = WORKFLOW_EXECUTION_TIMED_OUT then TIMED_OUT
               else if eventType e = WORKFLOW_EXECUTION_CANCELED then CANCELED
               else TERMINATED))"
proof -
  have eq: "parseEvent s e = returns (onWorkflowExecutionClosed s e)"
    using assms by (rule parseEvent_workflowClosed)
  have st: "workflowStack (onWorkflowExecutionClosed s e) = butlast (workflowStack s)"
    by (simp add: onWorkflowExecutionClosed_def Let_def split: option.splits)
  have none: "workflowMap s (propertyKey (stackTop (workflowStack s))) = None \<Longrightarrow>
      chronologicalList (onWorkflowExecutionClosed s e) = chronologicalList s"
    by (simp add: onWorkflowExecutionClosed_def Let_def)
  have some: "\<And>i. workflowMap s (propertyKey (stackTop (workflowStack s))) = Some i \<Longrightarrow>
      i < length (chronologicalList s) \<Longrightarrow>
      chronologicalList (onWorkflowExecutionClosed s e) ! i =
        (chronologicalList s ! i)\<lparr>endTime := Some (eventTime e),
           relatedEventIds := relatedEventIds (chronologicalList s ! i) @ [eventId e],
           status := workflowTerminalStatus (eventType e) (status (chronologicalList s ! i))\<rparr>"
    by (simp add: onWorkflowExecutionClosed_def Let_def mutate_def)
  have stat: "workflowTerminalStatus (eventType e) old =
      (if eventType e = WORKFLOW_EXECUTION_COMPLETED then COMPLETED
       else if eventType e = WORKFLOW_EXECUTION_FAILED then FAILED
       else if eventType e = WORKFLOW_EXECUTION_TIMED_OUT then TIMED_OUT
       else if eventType e = WORKFLOW_EXECUTION_CANCELED then CANCELED
       else TERMINATED)" for old
    using assms by (auto simp: workflowClosedTypes_def workflowTerminalStatus_def)
  show ?thesis
    unfolding eq using st none some stat
    by (simp add: Suc_pred')
qed

theorem C4_terminal_event_pops_scope_witness:
  "eventType (sampleEvent WORKFLOW_EXECUTION_FAILED 2 2) \<in> set workflowClosedTypes \<and>
   (\<exists>s s'. parseEvents initialState [workflowStarted ''A'' 1 1] = returns s \<and>
      workflowStack s = [''A''] \<and>
      workflowMap s ''A'' = Some 0 \<and>
      parseEvent s (sampleEvent WORKFLOW_EXECUTION_FAILED 2 2) = returns s' \<and>
      workflowStack s' = [] \<and>
      endTime (chronologicalList s' ! 0) = Some 2 \<and>
      status (chronologicalList s' ! 0) = FAILED)"
proof -
  let ?e = "sampleEvent WORKFLOW_EXECUTION_FAILED 2 2"
  obtain s where s: "parseEvents initialState [workflowStarted ''A'' 1 1] = returns s"
    and stack: "workflowStack s = [''A'']" and entry: "workflowMap s ''A'' = Some 0"
    and len: "0 < length (chronologicalList s)"
    by (simp add: eval_defs)
  have ty: "eventType ?e \<in> set workflowClosedTypes"
    by (simp add: workflowClosedTypes_def sample_defs)
  from C4_terminal_event_pops_scope [OF ty, of s] obtain s' where
    "parseEvent s ?e = returns s'" "workflowStack s' = butlast (workflowStack s)"
    "\<forall>i. workflowMap s (propertyKey (stackTop (workflowStack s))) = Some i \<and>
         i < length (chronologicalList s) \<longrightarrow>
       endTime (chronologicalList s' ! i) = Some (eventTime ?e) \<and>
       relatedEventIds (chronologicalList s' ! i) =
         relatedEventIds (chronologicalList s ! i) @ [eventId ?e] \<and>
       status (chronologicalList s' ! i) =
         (if eventType ?e = WORKFLOW_EXECUTION_COMPLETED then COMPLETED
          else if eventType ?e = WORKFLOW_EXECUTION_FAILED then FAILED
          else if eventType ?e = WORKFLOW_EXECUTION_TIMED_OUT then TIMED_OUT
          else if eventType ?e = WORKFLOW_EXECUTION_CANCELED then CANCELED
          else TERMINATED)"
    by blast
  then have "parseEvent s ?e = returns s'" "workflowStack s' = []"
    "endTime (chronologicalList s' ! 0) = Some 2" "status (chronologicalList s' ! 0) = FAILED"
    using stack entry len by (simp_all add: stackTop_def propertyKey_def sample_defs)
  with ty s stack entry show ?thesis
    by blast
qed
section \<open>The placeholder of an initiated child workflow\<close>



section \<open>Resolution of activity events\<close>

lemma scanBack_length_None:
  "scanBack P xs (length xs) = None \<longleftrightarrow> (\<forall>x \<in> set xs. \<not> P x)"
  by (simp add: scanBack_None_iff all_set_conv_all_nth)

lemma scanBack_length_Some:
  "scanBack P xs (length xs) = Some i \<longleftrightarrow>
     i < length xs \<and> P (xs ! i) \<and> (\<forall>x \<in> set (drop (Suc i) xs). \<not> P x)"
proof -
  have "(\<forall>x \<in> set (drop (Suc i) xs). \<not> P x) \<longleftrightarrow>
        (\<forall>j. i < j \<and> j < length xs \<longrightarrow> \<not> P (xs ! j))"
  proof
    assume a: "\<forall>x \<in> set (drop (Suc i) xs). \<not> P x"
    show "\<forall>j. i < j \<and> j < length xs \<longrightarrow> \<not> P (xs ! j)"
    proof (intro allI impI)
      fix j
      assume j: "i < j \<and> j < length xs"
      then have "j - Suc i < length (drop (Suc i) xs)"
        by simp arith
      then have "drop (Suc i) xs ! (j - Suc i) \<in> set (drop (Suc i) xs)"
        by (rule nth_mem)
      moreover have "drop (Suc i) xs ! (j - Suc i) = xs ! j"
        using j by simp
      ultimately show "\<not> P (xs ! j)"
        using a by auto
    qed
  next
    assume b: "\<forall>j. i < j \<and> j < length xs \<longrightarrow> \<not> P (xs ! j)"
    show "\<forall>x \<in> set (drop (Suc i) xs). \<not> P x"
    proof
      fix x
      assume "x \<in> set (drop (Suc i) xs)"
      then obtain k where k: "k < length (drop (Suc i) xs)" "x = drop (Suc i) xs ! k"
        by (auto simp: in_set_conv_nth)
      then have "x = xs ! (Suc i + k)" "i < Suc i + k" "Suc i + k < length xs"
        by auto
      then show "\<not> P x"
        using b by blast
    qed
  qed
  then show ?thesis
    by (simp add: scanBack_Some_iff)
qed

lemma scanBack_lastOpenActivity:
  "scanBack (openActivity owner sts) items (length items) = Some i \<longleftrightarrow>
     lastOpenActivity owner sts items i"
  by (simp add: scanBack_length_Some lastOpenActivity_def)

lemma scanBack_noOpenActivity:
  "scanBack (openActivity owner sts) items (length items) = None \<longleftrightarrow>
     noOpenActivity owner sts items"
  by (simp add: scanBack_length_None noOpenActivity_def)

text \<open>
  Claim C1, as stated in the specification: the event is resolved among the open spans of
  a pair (owning workflow, activity identifier), and every ActivityTaskStarted event is
  resolved. Neither holds. In the history below the activities \<open>a1\<close> and \<open>a2\<close> are
  scheduled in this order by workflow \<open>A\<close>; the most recent open span of the pair
  \<open>(A, a1)\<close> is at position 1, yet the ActivityTaskStarted event that follows leaves it
  untouched and starts the span of \<open>a2\<close>. And an ActivityTaskStarted event without its
  attributes object changes nothing although a scheduled span of the current scope exists.
\<close>

theorem C1_pair_matching_counterexample:
  "onOutput (\<lambda>items. scanBack (openActivityOfPair (Some ''A'') ''a1'' [SCHEDULED]) items 3)
     (parseTemporalHistory
        [workflowStarted ''A'' 1 1, activityScheduled ''a1'' 2 2, activityScheduled ''a2'' 3 3]) =
     returns (Some 1) \<and>
   onOutput (map (\<lambda>item. (activityId item, status item)))
     (parseTemporalHistory
        [workflowStarted ''A'' 1 1, activityScheduled ''a1'' 2 2, activityScheduled ''a2'' 3 3,
         activityStarted 4 4]) =
     returns [(None, RUNNING), (Some ''a1'', SCHEDULED), (Some ''a2'', STARTED)] \<and>
   onOutput (map (\<lambda>item. (activityId item, status item)))
     (parseTemporalHistory
        [workflowStarted ''A'' 1 1, activityScheduled ''a1'' 2 2,
         sampleEvent ACTIVITY_TASK_STARTED 3 3]) =
     returns [(None, RUNNING), (Some ''a1'', SCHEDULED)]"
  by code_simp

text \<open>
  Claim C1, amended: an ActivityTaskStarted event that carries its attributes object, and
  every ActivityTaskCompleted/Failed/TimedOut/Canceled event, is resolved to the most
  recently created activity span whose owning workflow identifier is the current top of
  the scope stack and whose status is SCHEDULED (for Started), or STARTED or SCHEDULED
  (for the terminal kinds); the activity identifier takes no part in the match. That
  span's start or end time, status and related event ids (and, for Completed with a
  result, its payload) are updated in place and nothing else changes. When there is no
  such span, and for an ActivityTaskStarted event without attributes, the state is
  unchanged.
\<close>

theorem C1_activity_event_resolves_last_open:
  "(eventType e = ACTIVITY_TASK_STARTED \<longrightarrow>
      (activityTaskStartedEventAttributes e = None \<longrightarrow> parseEvent s e = returns s) \<and>
      (activityTaskStartedEventAttributes e \<noteq> None \<longrightarrow>
         (noOpenActivity (stackTop (workflowStack s)) [SCHEDULED] (chronologicalList s) \<longrightarrow>
            parseEvent s e = returns s) \<and>
         (\<forall>i. lastOpenActivity (stackTop (workflowStack s)) [SCHEDULED]
                (chronologicalList s) i \<longrightarrow>
            parseEvent s e =
              returns
                (s\<lparr>chronologicalList :=
                    (chronologicalList s)
                      [i := (chronologicalList s ! i)
                         \<lparr>startTime := Some (eventTime e),
                          status := STARTED,
                          relatedEventIds :=
                            relatedEventIds (chronologicalList s ! i) @ [eventId e]\<rparr>]\<rparr>)))) \<and>
   (eventType e \<in> set activityClosedTypes \<longrightarrow>
      (noOpenActivity (stackTop (workflowStack s)) [STARTED, SCHEDULED]
         (chronologicalList s) \<longrightarrow>
         parseEvent s e = returns s) \<and>
      (\<forall>i. lastOpenActivity (stackTop (workflowStack s)) [STARTED, SCHEDULED]
             (chronologicalList s) i \<longrightarrow>
         parseEvent s e =
           returns
             (s\<lparr>chronologicalList :=
               (chronologicalList s)
                 [i := (chronologicalList s ! i)
                    \<lparr>endTime := Some (eventTime e),
                     status :=
                       (if eventType e = ACTIVITY_TASK_COMPLETED then COMPLETED
                        else if eventType e = ACTIVITY_TASK_FAILED then FAILED
                        else if eventType e = ACTIVITY_TASK_TIMED_OUT then TIMED_OUT
                        else CANCELED),
                     relatedEventIds :=
                       relatedEventIds (chronologicalList s ! i) @ [eventId e],
                     payload :=
                       (case completedPayloads e of
                          None \<Rightarrow> payload (chronologicalList s ! i)
                        | Some p \<Rightarrow> Some p)\<rparr>]\<rparr>)))"
proof -
  have started: "parseEvent s e = returns (onActivityTaskStarted s e)"
    if "eventType e = ACTIVITY_TASK_STARTED"
    using that by (simp add: parseEvent_def)
  have closed: "parseEvent s e = returns (onActivityTaskClosed s e)"
    if "eventType e \<in> set activityClosedTypes"
    using that by (rule parseEvent_activityClosed)
  have newStatus: "activityNewStatus (eventType e) =
      (if eventType e = ACTIVITY_TASK_COMPLETED then COMPLETED
       else if eventType e = ACTIVITY_TASK_FAILED then FAILED
       else if eventType e = ACTIVITY_TASK_TIMED_OUT then TIMED_OUT
       else CANCELED)"
    if "eventType e \<in> set activityClosedTypes"
    using that by (auto simp: activityClosedTypes_def activityNewStatus_def)
  have s1: "onActivityTaskStarted s e = s"
    if "activityTaskStartedEventAttributes e = None"
    using that by (simp add: onActivityTaskStarted_def)
  have s2: "onActivityTaskStarted s e = s"
    if "activityTaskStartedEventAttributes e \<noteq> None"
      and "noOpenActivity (stackTop (workflowStack s)) [SCHEDULED] (chronologicalList s)"
    using that scanBack_noOpenActivity [of "stackTop (workflowStack s)" "[SCHEDULED]"
        "chronologicalList s"]
    by (auto simp: onActivityTaskStarted_def Let_def)
  have s3: "onActivityTaskStarted s e =
      s\<lparr>chronologicalList :=
          (chronologicalList s)
            [i := (chronologicalList s ! i)
               \<lparr>startTime := Some (eventTime e), status := STARTED,
                relatedEventIds := relatedEventIds (chronologicalList s ! i) @ [eventId e]\<rparr>]\<rparr>"
    if "activityTaskStartedEventAttributes e \<noteq> None"
      and "lastOpenActivity (stackTop (workflowStack s)) [SCHEDULED] (chronologicalList s) i"
    for i
    using that scanBack_lastOpenActivity [of "stackTop (workflowStack s)" "[SCHEDULED]"
        "chronologicalList s" i]
    by (auto simp: onActivityTaskStarted_def Let_def mutate_def)
  have c1: "onActivityTaskClosed s e = s"
    if "noOpenActivity (stackTop (workflowStack s)) [STARTED, SCHEDULED] (chronologicalList s)"
    using that scanBack_noOpenActivity [of "stackTop (workflowStack s)" "[STARTED, SCHEDULED]"
        "chronologicalList s"]
    by (simp add: onActivityTaskClosed_def Let_def)
  have c2: "onActivityTaskClosed s e =
      s\<lparr>chronologicalList :=
          (chronologicalList s)
            [i := (chronologicalList s ! i)
               \<lparr>endTime := Some (eventTime e),
                status := activityNewStatus (eventType e),
                relatedEventIds := relatedEventIds (chronologicalList s ! i) @ [eventId e],
                payload := (case completedPayloads e of
                              None \<Rightarrow> payload (chronologicalList s ! i)
                            | Some p \<Rightarrow> Some p)\<rparr>]\<rparr>"
    if "lastOpenActivity (stackTop (workflowStack s)) [STARTED, SCHEDULED]
          (chronologicalList s) i"
    for i
    using that scanBack_lastOpenActivity [of "stackTop (workflowStack s)"
        "[STARTED, SCHEDULED]" "chronologicalList s" i]
    by (simp add: onActivityTaskClosed_def Let_def mutate_def)
  show ?thesis
    using started closed newStatus s1 s2 s3 c1 c2 by simp
qed

theorem C1_activity_event_resolves_last_open_witness:
  "eventType (activityStarted 4 4) = ACTIVITY_TASK_STARTED \<and>
   activityTaskStartedEventAttributes (activityStarted 4 4) \<noteq> None \<and>
   eventType (sampleEvent ACTIVITY_TASK_FAILED 5 5) \<in> set activityClosedTypes \<and>
   (\<exists>s s' s''.
      parseEvents initialState
        [workflowStarted ''A'' 1 1, activityScheduled ''a1'' 2 2, activityScheduled ''a2'' 3 3] =
        returns s \<and>
      lastOpenActivity (stackTop (workflowStack s)) [SCHEDULED] (chronologicalList s) 2 \<and>
      parseEvent s (activityStarted 4 4) = returns s' \<and>
      map (\<lambda>item. (activityId item, status item, startTime item, relatedEventIds item))
        (chronologicalList s') =
        [(None, RUNNING, Some 1, [1]), (Some ''a1'', SCHEDULED, None, [2]),
         (Some ''a2'', STARTED, Some 4, [3, 4])] \<and>
      lastOpenActivity (stackTop (workflowStack s')) [STARTED, SCHEDULED]
        (chronologicalList s') 2 \<and>
      parseEvent s' (sampleEvent ACTIVITY_TASK_FAILED 5 5) = returns s'' \<and>
      map (\<lambda>item. (activityId item, status item, endTime item, relatedEventIds item))
        (chronologicalList s'') =
        [(None, RUNNING, None, [1]), (Some ''a1'', SCHEDULED, None, [2]),
         (Some ''a2'', FAILED, Some 5, [3, 4, 5])])"
proof -
  let ?e = "activityStarted 4 4"
  let ?e' = "sampleEvent ACTIVITY_TASK_FAILED 5 5"
  define s where
    "s = projr (the (parseEvents initialState
           [workflowStarted ''A'' 1 1, activityScheduled ''a1'' 2 2,
            activityScheduled ''a2'' 3 3]))"
  define s' where
    "s' = s\<lparr>chronologicalList :=
              (chronologicalList s)
                [2 := (chronologicalList s ! 2)
                   \<lparr>startTime := Some (eventTime ?e), status := STARTED,
                    relatedEventIds := relatedEventIds (chronologicalList s ! 2) @ [eventId ?e]\<rparr>]\<rparr>"
  define s'' where
    "s'' = s'\<lparr>chronologicalList :=
              (chronologicalList s')
                [2 := (chronologicalList s' ! 2)
                   \<lparr>endTime := Some (eventTime ?e'),
                    status :=
                      (if eventType ?e' = ACTIVITY_TASK_COMPLETED then COMPLETED
                       else if eventType ?e' = ACTIVITY_TASK_FAILED then FAILED
                       else if eventType ?e' = ACTIVITY_TASK_TIMED_OUT then TIMED_OUT
                       else CANCELED),
                    relatedEventIds := relatedEventIds (chronologicalList s' ! 2) @ [eventId ?e'],
                    payload :=
                      (case completedPayloads ?e' of
                         None \<Rightarrow> payload (chronologicalList s' ! 2)
                       | Some p \<Rightarrow> Some p)\<rparr>]\<rparr>"
  have s: "parseEvents initialState
        [workflowStarted ''A'' 1 1, activityScheduled ''a1'' 2 2, activityScheduled ''a2'' 3 3] =
        returns s"
    unfolding s_def by (simp add: eval_defs)
  have ty: "eventType ?e = ACTIVITY_TASK_STARTED"
    and at: "activityTaskStartedEventAttributes ?e \<noteq> None"
    and ty': "eventType ?e' \<in> set activityClosedTypes"
    by (simp_all add: sample_defs activityClosedTypes_def)
  have lo: "lastOpenActivity (stackTop (workflowStack s)) [SCHEDULED] (chronologicalList s) 2"
    unfolding s_def lastOpenActivity_def by code_simp
  have step: "parseEvent s ?e = returns s'"
    using C1_activity_event_resolves_last_open [of ?e s] ty at lo
    unfolding s'_def by blast
  have out: "map (\<lambda>item. (activityId item, status item, startTime item, relatedEventIds item))
        (chronologicalList s') =
        [(None, RUNNING, Some 1, [1]), (Some ''a1'', SCHEDULED, None, [2]),
         (Some ''a2'', STARTED, Some 4, [3, 4])]"
    unfolding s'_def s_def by code_simp
  have lo': "lastOpenActivity (stackTop (workflowStack s')) [STARTED, SCHEDULED]
      (chronologicalList s') 2"
    unfolding s'_def s_def lastOpenActivity_def by code_simp
  have step': "parseEvent s' ?e' = returns s''"
    using C1_activity_event_resolves_last_open [of ?e' s'] ty' lo'
    unfolding s''_def by blast
  have out': "map (\<lambda>item. (activityId item, status item, endTime item, relatedEventIds item))
        (chronologicalList s'') =
        [(None, RUNNING, None, [1]), (Some ''a1'', SCHEDULED, None, [2]),
         (Some ''a2'', FAILED, Some 5, [3, 4, 5])]"
    unfolding s''_def s'_def s_def by code_simp
  show ?thesis
    by (intro conjI, fact ty, fact at, fact ty',
        rule exI [of _ s], rule exI [of _ s'], rule exI [of _ s''], intro conjI)
      (fact s lo step out lo' step' out')+
qed

section \<open>Paginated retrieval\<close>

lemma getWorkflowDataLoop_pages:
  assumes "\<forall>p \<in> set pages. ok p \<and> truthy (nextPageToken p)"
      and "ok final" and "\<not> truthy (nextPageToken final)"
  shows "getWorkflowDataLoop (pages @ [final]) tok allEvents reqs =
           (reqs @ requestFor tok # map nextPageToken pages,
            Inr (allEvents @ concat (map events (pages @ [final]))))"
  using assms
proof (induction pages arbitrary: tok allEvents reqs)
  case Nil
  then show ?case by simp
next
  case (Cons p pages)
  then have "requestFor (nextPageToken p) = nextPageToken p"
    by (simp add: requestFor_def)
  with Cons show ?case by simp
qed

text \<open>
  Claim C8: when the upstream answers the successive requests with pages that all succeed,
  every page but the last carrying a continuation token and the last carrying none (absent
  or empty), the fetch returns the concatenation of the pages' event lists in page order.
  It issues one request per page: the first without token, each further one with the
  token of the page before.
\<close>

theorem C8_fetch_concatenates_pages:
  assumes "\<forall>p \<in> set pages. ok p \<and> truthy (nextPageToken p)"
      and "ok final" and "\<not> truthy (nextPageToken final)"
  shows "getWorkflowData (pages @ [final]) = Inr (concat (map events (pages @ [final]))) \<and>
         getWorkflowDataRequests (pages @ [final]) = None # map nextPageToken pages"
  using getWorkflowDataLoop_pages [OF assms, of None "[]" "[]"]
  by (simp add: getWorkflowData_def getWorkflowDataRequests_def requestFor_def truthy_def)

theorem C8_fetch_concatenates_pages_witness:
  "ok (samplePage [workflowStarted ''A'' 1 1] (Some ''t1'')) \<and>
   truthy (nextPageToken (samplePage [workflowStarted ''A'' 1 1] (Some ''t1''))) \<and>
   ok (samplePage [activityScheduled ''a1'' 2 2] (Some ''t2'')) \<and>
   truthy (nextPageToken (samplePage [activityScheduled ''a1'' 2 2] (Some ''t2''))) \<and>
   ok (samplePage [sampleEvent WORKFLOW_EXECUTION_COMPLETED 3 3] None) \<and>
   \<not> truthy (nextPageToken (samplePage [sampleEvent WORKFLOW_EXECUTION_COMPLETED 3 3] None)) \<and>
   getWorkflowData
     [samplePage [workflowStarted ''A'' 1 1] (Some ''t1''),
      samplePage [activityScheduled ''a1'' 2 2] (Some ''t2''),
      samplePage [sampleEvent WORKFLOW_EXECUTION_COMPLETED 3 3] None] =
     Inr [workflowStarted ''A'' 1 1, activityScheduled ''a1'' 2 2,
          sampleEvent WORKFLOW_EXECUTION_COMPLETED 3 3] \<and>
   getWorkflowDataRequests
     [samplePage [workflowStarted ''A'' 1 1] (Some ''t1''),
      samplePage [activityScheduled ''a1'' 2 2] (Some ''t2''),
      samplePage [sampleEvent WORKFLOW_EXECUTION_COMPLETED 3 3] None] =
     [None, Some ''t1'', Some ''t2'']"
proof -
  let ?pages = "[samplePage [workflowStarted ''A'' 1 1] (Some ''t1''),
                 samplePage [activityScheduled ''a1'' 2 2] (Some ''t2'')]"
  let ?final = "samplePage [sampleEvent WORKFLOW_EXECUTION_COMPLETED 3 3] None"
  have a: "\<forall>p \<in> set ?pages. ok p \<and> truthy (nextPageToken p)"
    by (simp add: samplePage_def truthy_def)
  have b: "ok ?final" and c: "\<not> truthy (nextPageToken ?final)"
    by (simp_all add: samplePage_def truthy_def)
  from C8_fetch_concatenates_pages [OF a b c] a b c show ?thesis
    by (simp add: samplePage_def truthy_def)
qed

section \<open>Upstream failures\<close>

lemma getWorkflowDataLoop_failure:
  assumes "\<forall>p \<in> set pages. ok p \<and> truthy (nextPageToken p)"
      and "\<not> ok failing"
  shows "getWorkflowDataLoop (pages @ failing # rest) tok allEvents reqs =
           (reqs @ requestFor tok # map nextPageToken pages,
            Inl (Error_FailedToFetch (httpStatus failing)))"
  using assms
proof (induction pages arbitrary: tok allEvents reqs)
  case Nil
  then show ?case by simp
next
  case (Cons p pages)
  then have "requestFor (nextPageToken p) = nextPageToken p"
    by (simp add: requestFor_def)
  with Cons show ?case by simp
qed

text \<open>A response that is not a success ends the fetch with an error that carries the
  upstream status; the failing request is the last one issued (nothing is retried, and the
  responses that the upstream would give afterwards are never asked for).\<close>

lemma getWorkflowData_failure:
  assumes "\<forall>p \<in> set pages. ok p \<and> truthy (nextPageToken p)"
      and "\<not> ok failing"
  shows "getWorkflowData (pages @ failing # rest) =
           Inl (Error_FailedToFetch (httpStatus failing)) \<and>
         getWorkflowDataRequests (pages @ failing # rest) = None # map nextPageToken pages"
  using getWorkflowDataLoop_failure [OF assms, of rest None "[]" "[]"]
  by (simp add: getWorkflowData_def getWorkflowDataRequests_def requestFor_def truthy_def)

lemma getWorkflowDataLoop_not_NotFound:
  "snd (getWorkflowDataLoop responses tok allEvents reqs) \<noteq> Inl (NotFoundException msg)"
  by (induction responses arbitrary: tok allEvents reqs) simp_all

lemma getWorkflowData_not_NotFound: "getWorkflowData responses \<noteq> Inl (NotFoundException msg)"
  by (simp add: getWorkflowData_def getWorkflowDataLoop_not_NotFound)

text \<open>The parser throws nothing but a TypeError.\<close>

lemma parseEvent_throws: "parseEvent s e = throws error \<Longrightarrow> error = TypeError"
  by (cases "eventType e")
    (auto simp: handler_defs Let_def split: option.splits if_splits)

lemma parseEvents_throws: "parseEvents s es = throws error \<Longrightarrow> error = TypeError"
proof (induction es arbitrary: s)
  case Nil
  then show ?case by simp
next
  case (Cons e es)
  then show ?case
    by (auto split: option.splits sum.splits dest: parseEvent_throws)
qed

lemma parseTemporalHistory_throws:
  "parseTemporalHistory evs = throws error \<Longrightarrow> error = TypeError"
  by (auto simp: parseTemporalHistory_def split: option.splits sum.splits
      dest: parseEvents_throws)

text \<open>The service never throws a \<^verbatim>\<open>NotFoundException\<close>, so the branch of the route
  handler that answers 404 is never taken.\<close>

lemma getRootWorkflowData_not_NotFound:
  "getRootWorkflowData upstream ns wid \<noteq> throws (NotFoundException msg)"
  using getWorkflowData_not_NotFound [of "upstream ns wid" msg]
  by (auto simp: getRootWorkflowData_def split: sum.splits option.splits
      dest: parseTemporalHistory_throws)

lemma workflowRoute_never_404: "workflowRoute upstream q \<noteq> Some (404, body)"
  using getRootWorkflowData_not_NotFound [of upstream]
  by (auto simp: workflowRoute_def split: sum.splits option.splits Exception.splits)

text \<open>
  Claim C7 says that an upstream answer "no such execution" makes the fetch fail with
  NotFound, which the route \<^verbatim>\<open>GET /workflow\<close> surfaces as status 404. The code does
  not: for the upstream status 404 the fetch throws the same generic error as for any
  other failure (after one request), and the route answers 500.
\<close>

theorem C7_upstream_404_answered_with_500:
  "getWorkflowData (sampleUpstream ''default'' ''X'') = Inl (Error_FailedToFetch 404) \<and>
   getWorkflowDataRequests (sampleUpstream ''default'' ''X'') = [None] \<and>
   workflowRoute sampleUpstream (sampleQuery ''X'') =
     Some (500, ErrorMessage (Error_FailedToFetch 404))"
proof -
  have fetch: "getWorkflowData (sampleUpstream ''default'' ''X'') = Inl (Error_FailedToFetch 404)"
    by code_simp
  have reqs: "getWorkflowDataRequests (sampleUpstream ''default'' ''X'') = [None]"
    by code_simp
  have "workflowRoute sampleUpstream (sampleQuery ''X'') =
      Some (500, ErrorMessage (Error_FailedToFetch 404))"
    using fetch by (simp add: workflowRoute_def sampleQuery_def truthy_def getRootWorkflowData_def)
  with fetch reqs show ?thesis by simp
qed

text \<open>The request of the failing input carries all three query parameters, so it is the
  fetch, not the parameter check, that decides the answer.\<close>

theorem C7_upstream_404_answered_with_500_witness:
  "truthy (q_id (sampleQuery ''X'')) \<and> truthy (q_namespace (sampleQuery ''X'')) \<and>
   truthy (q_runId (sampleQuery ''X'')) \<and>
   map_option fst (workflowRoute sampleUpstream (sampleQuery ''X'')) = Some 500"
  using C7_upstream_404_answered_with_500
  by (simp add: sampleQuery_def truthy_def)

section \<open>Isolation of child failures\<close>

lemma fetchChildWorkflows_apply:
  assumes "\<forall>c \<in> set (childWorkflowIds items). childInModel upstream ns c"
  shows "\<exists>m'. fetchChildWorkflows upstream ns items m = Some m' \<and>
           (\<forall>c. m' c =
              (if c \<in> set (childWorkflowIds items)
               then (case childTimeline upstream ns c of
                       Some timeline \<Rightarrow> Some timeline
                     | None \<Rightarrow> m c)
               else m c))"
  using assms
proof (induction items arbitrary: m)
  case Nil
  then show ?case by (simp add: childWorkflowIds_def)
next
  case (Cons item items)
  show ?case
  proof (cases "type item = T_childWorkflow")
    case False
    then show ?thesis
      using Cons.IH [of m] Cons.prems by (simp add: childWorkflowIds_def)
  next
    case True
    let ?c = "workflowId item"
    have rest: "\<forall>c \<in> set (childWorkflowIds items). childInModel upstream ns c"
      using Cons.prems by (simp add: childWorkflowIds_def)
    have inModel: "childInModel upstream ns ?c"
      using Cons.prems True by (simp add: childWorkflowIds_def)
    show ?thesis
    proof (cases "childTimeline upstream ns ?c")
      case None
      with inModel have step: "fetchChildWorkflows upstream ns (item # items) m =
          fetchChildWorkflows upstream ns items m"
        using True
        by (auto simp: childTimeline_def childInModel_def split: sum.splits option.splits)
      from Cons.IH [OF rest, of m] obtain m' where
        m': "fetchChildWorkflows upstream ns items m = Some m'"
        "\<forall>c. m' c =
           (if c \<in> set (childWorkflowIds items)
            then (case childTimeline upstream ns c of
                    Some timeline \<Rightarrow> Some timeline
                  | None \<Rightarrow> m c)
            else m c)"
        by blast
      have "\<forall>c. m' c =
           (if c \<in> set (childWorkflowIds (item # items))
            then (case childTimeline upstream ns c of
                    Some timeline \<Rightarrow> Some timeline
                  | None \<Rightarrow> m c)
            else m c)"
        using m'(2) None True by (auto simp: childWorkflowIds_def)
      with step m'(1) show ?thesis by simp
    next
      case (Some timeline)
      let ?m = "m(?c \<mapsto> timeline)"
      from Some have step: "fetchChildWorkflows upstream ns (item # items) m =
          fetchChildWorkflows upstream ns items ?m"
        using True
        by (auto simp: childTimeline_def split: sum.splits option.splits)
      from Cons.IH [OF rest, of ?m] obtain m' where
        m': "fetchChildWorkflows upstream ns items ?m = Some m'"
        "\<forall>c. m' c =
           (if c \<in> set (childWorkflowIds items)
            then (case childTimeline upstream ns c of
                    Some timeline \<Rightarrow> Some timeline
                  | None \<Rightarrow> ?m c)
            else ?m c)"
        by blast
      have "\<forall>c. m' c =
           (if c \<in> set (childWorkflowIds (item # items))
            then (case childTimeline upstream ns c of
                    Some timeline \<Rightarrow> Some timeline
                  | None \<Rightarrow> m c)
            else m c)"
        using m'(2) Some True by (auto simp: childWorkflowIds_def split: option.splits)
      with step m'(1) show ?thesis by simp
    qed
  qed
qed

text \<open>
  Claim C9: once the root history has been fetched and parsed,
  \<^verbatim>\<open>getRootWorkflowData\<close> returns a result and throws nothing, whatever happens with
  the children. The result holds the whole root timeline; its children mapping has an
  entry, the parsed history, for exactly the discovered children whose history is
  fetched and parsed without a throw, and none for a child whose fetch or whose parsing
  throws. With two discovered children of which one fails, the mapping has exactly one
  entry. (The histories are such that the model of the parser does not stop on them.)
\<close>

theorem C9_child_failure_is_isolated:
  assumes "getWorkflowData (upstream ns root) = Inr rootEvents"
      and "parseTemporalHistory rootEvents = returns rootItems"
      and "\<forall>c \<in> set (childWorkflowIds rootItems). childInModel upstream ns c"
  shows "\<exists>children.
           getRootWorkflowData upstream ns root =
             returns \<lparr>rootWorkflow = rootItems, childWorkflows = children\<rparr> \<and>
           (\<forall>c. children c =
              (if c \<in> set (childWorkflowIds rootItems)
               then (case getWorkflowData (upstream ns c) of
                       Inl error \<Rightarrow> None
                     | Inr h \<Rightarrow>
                         (case parseTemporalHistory h of
                            Some (Inr timeline) \<Rightarrow> Some timeline
                          | _ \<Rightarrow> None))
               else None)) \<and>
           (\<forall>c1 c2.
              set (childWorkflowIds rootItems) = {c1, c2} \<and>
              childTimeline upstream ns c1 = None \<and>
              childTimeline upstream ns c2 \<noteq> None \<longrightarrow>
              dom children = {c2})"
proof -
  from fetchChildWorkflows_apply [OF assms(3), of Map.empty] obtain children where
    fetched: "fetchChildWorkflows upstream ns rootItems Map.empty = Some children"
    and app: "\<forall>c. children c =
      (if c \<in> set (childWorkflowIds rootItems)
       then (case childTimeline upstream ns c of
               Some timeline \<Rightarrow> Some timeline
             | None \<Rightarrow> None)
       else None)"
    by blast
  have res: "getRootWorkflowData upstream ns root =
      returns \<lparr>rootWorkflow = rootItems, childWorkflows = children\<rparr>"
    using assms(1,2) fetched by (simp add: getRootWorkflowData_def)
  have app': "children c =
      (if c \<in> set (childWorkflowIds rootItems)
       then (case getWorkflowData (upstream ns c) of
               Inl error \<Rightarrow> None
             | Inr h \<Rightarrow>
                 (case parseTemporalHistory h of
                    Some (Inr timeline) \<Rightarrow> Some timeline
                  | _ \<Rightarrow> None))
       else None)" for c
    using app by (auto simp: childTimeline_def split: sum.splits option.splits)
  have two: "dom children = {c2}"
    if "set (childWorkflowIds rootItems) = {c1, c2}"
      and "childTimeline upstream ns c1 = None"
      and "childTimeline upstream ns c2 \<noteq> None" for c1 c2
  proof -
    have "children c \<noteq> None \<longleftrightarrow> c = c2" for c
      using app that by (cases "c = c1"; cases "c = c2"; auto)
    then show ?thesis
      by (auto simp: dom_def)
  qed
  show ?thesis
  proof (intro exI conjI)
    show "getRootWorkflowData upstream ns root =
        returns \<lparr>rootWorkflow = rootItems, childWorkflows = children\<rparr>"
      by (rule res)
    show "\<forall>c. children c =
        (if c \<in> set (childWorkflowIds rootItems)
         then (case getWorkflowData (upstream ns c) of
                 Inl error \<Rightarrow> None
               | Inr h \<Rightarrow>
                   (case parseTemporalHistory h of
                      Some (Inr timeline) \<Rightarrow> Some timeline
                    | _ \<Rightarrow> None))
         else None)"
      by (intro allI) (rule app')
    show "\<forall>c1 c2.
        set (childWorkflowIds rootItems) = {c1, c2} \<and>
        childTimeline upstream ns c1 = None \<and>
        childTimeline upstream ns c2 \<noteq> None \<longrightarrow>
        dom children = {c2}"
      by (intro allI impI) (elim conjE, rule two)
  qed
qed

text \<open>Two runs of the service. Root \<open>A\<close> discovers the children \<open>B\<close>, whose fetch fails,
  and \<open>C\<close>; root \<open>R\<close> discovers \<open>C\<close> and \<open>D\<close>, whose history is fetched but makes the parser
  throw. Both runs return, with the one entry of \<open>C\<close>.\<close>

theorem C9_child_failure_is_isolated_witness:
  "getWorkflowData (sampleUpstream ''default'' ''A'') =
     Inr [workflowStarted ''A'' 1 1, childInitiated ''B'' 2 2, childInitiated ''C'' 3 3] \<and>
   getWorkflowData (sampleUpstream ''default'' ''R'') =
     Inr [workflowStarted ''R'' 1 1, childInitiated ''C'' 2 2, childInitiated ''D'' 3 3] \<and>
   getWorkflowData (sampleUpstream ''default'' ''B'') = Inl (Error_FailedToFetch 404) \<and>
   getWorkflowData (sampleUpstream ''default'' ''C'') = Inr [workflowStarted ''C'' 1 4] \<and>
   getWorkflowData (sampleUpstream ''default'' ''D'') = Inr [workflowStartedUntyped ''D'' 1 5] \<and>
   parseTemporalHistory [workflowStartedUntyped ''D'' 1 5 :: nat Event] = throws TypeError \<and>
   (\<exists>itemsA itemsR itemsC childrenA childrenR.
      parseTemporalHistory
        [workflowStarted ''A'' 1 1, childInitiated ''B'' 2 2, childInitiated ''C'' 3 3] =
        returns itemsA \<and>
      parseTemporalHistory
        [workflowStarted ''R'' 1 1, childInitiated ''C'' 2 2, childInitiated ''D'' 3 3] =
        returns itemsR \<and>
      parseTemporalHistory [workflowStarted ''C'' 1 4] = returns itemsC \<and>
      set (childWorkflowIds itemsA) = {''B'', ''C''} \<and>
      set (childWorkflowIds itemsR) = {''C'', ''D''} \<and>
      getRootWorkflowData sampleUpstream ''default'' ''A'' =
        returns \<lparr>rootWorkflow = itemsA, childWorkflows = childrenA\<rparr> \<and>
      childrenA ''B'' = None \<and> childrenA ''C'' = Some itemsC \<and> dom childrenA = {''C''} \<and>
      getRootWorkflowData sampleUpstream ''default'' ''R'' =
        returns \<lparr>rootWorkflow = itemsR, childWorkflows = childrenR\<rparr> \<and>
      childrenR ''D'' = None \<and> childrenR ''C'' = Some itemsC \<and> dom childrenR = {''C''})"
proof -
  let ?eventsA = "[workflowStarted ''A'' 1 1, childInitiated ''B'' 2 2,
    childInitiated ''C'' 3 3] :: nat Event list"
  let ?eventsR = "[workflowStarted ''R'' 1 1, childInitiated ''C'' 2 2,
    childInitiated ''D'' 3 3] :: nat Event list"
  define itemsA where "itemsA = projr (the (parseTemporalHistory ?eventsA))"
  define itemsR where "itemsR = projr (the (parseTemporalHistory ?eventsR))"
  define itemsC where
    "itemsC = projr (the (parseTemporalHistory [workflowStarted ''C'' 1 4 :: nat Event]))"
  have fetchA: "getWorkflowData (sampleUpstream ''default'' ''A'') = Inr ?eventsA"
    by code_simp
  have fetchR: "getWorkflowData (sampleUpstream ''default'' ''R'') = Inr ?eventsR"
    by code_simp
  have fetchB: "getWorkflowData (sampleUpstream ''default'' ''B'') = Inl (Error_FailedToFetch 404)"
    by code_simp
  have fetchC: "getWorkflowData (sampleUpstream ''default'' ''C'') = Inr [workflowStarted ''C'' 1 4]"
    by code_simp
  have fetchD: "getWorkflowData (sampleUpstream ''default'' ''D'') =
      Inr [workflowStartedUntyped ''D'' 1 5]"
    by code_simp
  have parseD: "parseTemporalHistory [workflowStartedUntyped ''D'' 1 5 :: nat Event] =
      throws TypeError"
    by code_simp
  have parseA: "parseTemporalHistory ?eventsA = returns itemsA"
    unfolding itemsA_def by code_simp
  have parseR: "parseTemporalHistory ?eventsR = returns itemsR"
    unfolding itemsR_def by code_simp
  have parseC: "parseTemporalHistory [workflowStarted ''C'' 1 4 :: nat Event] = returns itemsC"
    unfolding itemsC_def by code_simp
  have idsA: "set (childWorkflowIds itemsA) = {''B'', ''C''}"
    unfolding itemsA_def by code_simp
  have idsR: "set (childWorkflowIds itemsR) = {''C'', ''D''}"
    unfolding itemsR_def by code_simp
  have timelineB: "childTimeline sampleUpstream ''default'' ''B'' = None"
    using fetchB by (simp add: childTimeline_def)
  have timelineC: "childTimeline sampleUpstream ''default'' ''C'' = Some itemsC"
    using fetchC parseC by (simp add: childTimeline_def)
  have timelineD: "childTimeline sampleUpstream ''default'' ''D'' = None"
    using fetchD parseD by (simp add: childTimeline_def)
  have inModelA: "\<forall>c \<in> set (childWorkflowIds itemsA). childInModel sampleUpstream ''default'' c"
    using fetchB fetchC parseC by (simp add: idsA childInModel_def)
  have inModelR: "\<forall>c \<in> set (childWorkflowIds itemsR). childInModel sampleUpstream ''default'' c"
    using fetchD fetchC parseC parseD by (simp add: idsR childInModel_def)
  from C9_child_failure_is_isolated [OF fetchA parseA inModelA]
  obtain childrenA where
    resA: "getRootWorkflowData sampleUpstream ''default'' ''A'' =
      returns \<lparr>rootWorkflow = itemsA, childWorkflows = childrenA\<rparr>"
    and appA: "\<forall>c. childrenA c =
      (if c \<in> set (childWorkflowIds itemsA)
       then (case getWorkflowData (sampleUpstream ''default'' c) of
               Inl error \<Rightarrow> None
             | Inr h \<Rightarrow>
                 (case parseTemporalHistory h of
                    Some (Inr timeline) \<Rightarrow> Some timeline
                  | _ \<Rightarrow> None))
       else None)"
    and twoA: "\<forall>c1 c2.
      set (childWorkflowIds itemsA) = {c1, c2} \<and>
      childTimeline sampleUpstream ''default'' c1 = None \<and>
      childTimeline sampleUpstream ''default'' c2 \<noteq> None \<longrightarrow>
      dom childrenA = {c2}"
    by (elim exE conjE)
  from C9_child_failure_is_isolated [OF fetchR parseR inModelR]
  obtain childrenR where
    resR: "getRootWorkflowData sampleUpstream ''default'' ''R'' =
      returns \<lparr>rootWorkflow = itemsR, childWorkflows = childrenR\<rparr>"
    and appR: "\<forall>c. childrenR c =
      (if c \<in> set (childWorkflowIds itemsR)
       then (case getWorkflowData (sampleUpstream ''default'' c) of
               Inl error \<Rightarrow> None
             | Inr h \<Rightarrow>
                 (case parseTemporalHistory h of
                    Some (Inr timeline) \<Rightarrow> Some timeline
                  | _ \<Rightarrow> None))
       else None)"
    and twoR: "\<forall>c1 c2.
      set (childWorkflowIds itemsR) = {c1, c2} \<and>
      childTimeline sampleUpstream ''default'' c1 = None \<and>
      childTimeline sampleUpstream ''default'' c2 \<noteq> None \<longrightarrow>
      dom childrenR = {c2}"
    by (elim exE conjE)
  have bA: "childrenA ''B'' = None"
    using spec [OF appA, of "''B''"] fetchB by simp
  have cA: "childrenA ''C'' = Some itemsC"
    using spec [OF appA, of "''C''"] fetchC parseC idsA by simp
  have domA: "dom childrenA = {''C''}"
    using twoA idsA timelineB timelineC by blast
  have dR: "childrenR ''D'' = None"
    using spec [OF appR, of "''D''"] fetchD parseD by simp
  have cR: "childrenR ''C'' = Some itemsC"
    using spec [OF appR, of "''C''"] fetchC parseC idsR by simp
  have "set (childWorkflowIds itemsR) = {''D'', ''C''}"
    using idsR by auto
  with twoR timelineD timelineC have domR: "dom childrenR = {''C''}"
    by blast
  show ?thesis
    by (intro conjI, fact fetchA, fact fetchR, fact fetchB, fact fetchC, fact fetchD,
        fact parseD, rule exI [of _ itemsA], rule exI [of _ itemsR], rule exI [of _ itemsC],
        rule exI [of _ childrenA], rule exI [of _ childrenR], intro conjI)
      (fact parseA parseR parseC idsA idsR resA bA cA domA resR dR cR domR)+
qed

section \<open>The output list only grows at its end\<close>

lemma evolves_refl [simp]: "evolves a a"
  by (simp add: evolves_def)

lemma evolves_trans: "evolves a b \<Longrightarrow> evolves b c \<Longrightarrow> evolves a c"
  by (simp add: evolves_def)

lemma growsFrom_refl [simp]: "growsFrom xs xs"
  by (simp add: growsFrom_def list_all2_refl)

lemma growsFrom_append [simp]: "growsFrom xs (xs @ ys)"
  by (simp add: growsFrom_def list_all2_refl)

lemma growsFrom_nth:
  "growsFrom xs ys \<longleftrightarrow> length xs \<le> length ys \<and> (\<forall>i<length xs. evolves (xs ! i) (ys ! i))"
  by (auto simp: growsFrom_def list_all2_conv_all_nth)

lemma growsFrom_trans: "growsFrom xs ys \<Longrightarrow> growsFrom ys zs \<Longrightarrow> growsFrom xs zs"
  unfolding growsFrom_nth
  by (meson evolves_trans le_trans less_le_trans)

lemma growsFrom_mutate:
  assumes "i < length xs \<Longrightarrow> evolves (xs ! i) (f (xs ! i))"
  shows "growsFrom xs (mutate i f xs)"
  unfolding growsFrom_nth using assms
  by (simp add: nth_mutate)

lemma openActivity_not_terminal:
  "openActivity owner [SCHEDULED] item \<or> openActivity owner [STARTED, SCHEDULED] item \<Longrightarrow>
   \<not> isTerminal (status item)"
  by (auto simp: openActivity_def isTerminal_def)

lemma growsFrom_onWorkflowExecutionStarted:
  "onWorkflowExecutionStarted s e = returns s' \<Longrightarrow>
   growsFrom (chronologicalList s) (chronologicalList s')"
  by (auto simp: onWorkflowExecutionStarted_def Let_def split: option.splits if_splits)

lemma isTerminal_workflowTerminalStatus:
  "isTerminal old \<Longrightarrow> isTerminal (workflowTerminalStatus ty old)"
  by (cases ty) (simp_all add: workflowTerminalStatus_def isTerminal_def)

lemma growsFrom_onWorkflowExecutionClosed:
  "growsFrom (chronologicalList s) (chronologicalList (onWorkflowExecutionClosed s e))"
  by (auto simp: onWorkflowExecutionClosed_def Let_def evolves_def itemKey_def
      isTerminal_workflowTerminalStatus intro!: growsFrom_mutate split: option.splits)

lemma growsFrom_onActivityTaskScheduled:
  "onActivityTaskScheduled s e = returns s' \<Longrightarrow>
   growsFrom (chronologicalList s) (chronologicalList s')"
  by (auto simp: onActivityTaskScheduled_def Let_def split: option.splits if_splits)

lemma growsFrom_onActivityTaskStarted:
  "growsFrom (chronologicalList s) (chronologicalList (onActivityTaskStarted s e))"
proof -
  have "growsFrom (chronologicalList s) (mutate i f (chronologicalList s))"
    if "scanBack (openActivity owner [SCHEDULED]) (chronologicalList s)
          (length (chronologicalList s)) = Some i"
      and "f = (\<lambda>item. item\<lparr>startTime := t, status := STARTED, relatedEventIds := r item\<rparr>)"
    for i owner f t r
  proof (rule growsFrom_mutate)
    from that(1) have "openActivity owner [SCHEDULED] (chronologicalList s ! i)"
      by (simp add: scanBack_Some_iff)
    then have "\<not> isTerminal (status (chronologicalList s ! i))"
      using openActivity_not_terminal by blast
    then show "evolves (chronologicalList s ! i) (f (chronologicalList s ! i))"
      by (simp add: that(2) evolves_def itemKey_def)
  qed
  then show ?thesis
    by (simp add: onActivityTaskStarted_def Let_def split: option.splits)
qed

lemma isTerminal_activityNewStatus: "isTerminal (activityNewStatus ty)"
  by (cases ty) (simp_all add: activityNewStatus_def isTerminal_def)

lemma growsFrom_onActivityTaskClosed:
  "growsFrom (chronologicalList s) (chronologicalList (onActivityTaskClosed s e))"
  by (auto simp: onActivityTaskClosed_def Let_def evolves_def itemKey_def
      isTerminal_activityNewStatus intro!: growsFrom_mutate split: option.splits)

lemma growsFrom_onChildWorkflowExecutionCompleted:
  "onChildWorkflowExecutionCompleted s e = returns s' \<Longrightarrow>
   growsFrom (chronologicalList s) (chronologicalList s')"
  by (auto simp: onChildWorkflowExecutionCompleted_def evolves_def itemKey_def isTerminal_def
      intro!: growsFrom_mutate split: option.splits if_splits)

lemma growsFrom_onChildWorkflowExecutionStarted:
  "onChildWorkflowExecutionStarted s e = returns s' \<Longrightarrow>
   growsFrom (chronologicalList s) (chronologicalList s')"
  by (auto simp: onChildWorkflowExecutionStarted_def Let_def evolves_def itemKey_def
      intro!: growsFrom_mutate split: option.splits if_splits)

lemma growsFrom_onStartChildWorkflowExecutionInitiated:
  "onStartChildWorkflowExecutionInitiated s e = returns s' \<Longrightarrow>
   growsFrom (chronologicalList s) (chronologicalList s')"
  by (auto simp: onStartChildWorkflowExecutionInitiated_def Let_def evolves_def itemKey_def
      intro!: growsFrom_mutate split: option.splits if_splits)

lemmas growsFrom_handlers =
  growsFrom_onWorkflowExecutionStarted growsFrom_onWorkflowExecutionClosed
  growsFrom_onActivityTaskScheduled growsFrom_onActivityTaskStarted
  growsFrom_onActivityTaskClosed growsFrom_onChildWorkflowExecutionCompleted
  growsFrom_onChildWorkflowExecutionStarted growsFrom_onStartChildWorkflowExecutionInitiated

lemma growsFrom_parseEvent:
  "parseEvent s e = returns s' \<Longrightarrow> growsFrom (chronologicalList s) (chronologicalList s')"
  by (cases "eventType e") (auto simp: parseEvent_def growsFrom_handlers)

lemma growsFrom_parseEvents:
  "parseEvents s es = returns s' \<Longrightarrow> growsFrom (chronologicalList s) (chronologicalList s')"
proof (induction es arbitrary: s)
  case Nil
  then show ?case by simp
next
  case (Cons e es)
  from Cons.prems obtain s1 where
    "parseEvent s e = returns s1" "parseEvents s1 es = returns s'"
    using parseEvents_Cons_returns by blast
  then show ?case
    using growsFrom_trans [OF growsFrom_parseEvent Cons.IH] by blast
qed

text \<open>An event appends at most one item, and only four kinds of events append one.\<close>

lemma length_parseEvent:
  "parseEvent s e = returns s' \<Longrightarrow>
   length (chronologicalList s') \<le> Suc (length (chronologicalList s))"
  by (cases "eventType e")
    (auto simp: handler_defs Let_def split: option.splits if_splits)


section \<open>References stay valid\<close>

lemma workflowMap_parseEvent:
  assumes "parseEvent s e = returns s'" and "workflowMap s' k = Some i"
  shows "workflowMap s k = Some i \<or>
         (i = length (chronologicalList s) \<and> k \<noteq> protoKey \<and>
          (\<exists>item. chronologicalList s' = chronologicalList s @ [item] \<and>
                  type item \<noteq> T_activity \<and> workflowId item = k))"
  using assms
  by (cases "eventType e")
    (auto simp: handler_defs Let_def split: option.splits if_splits)

lemma refsOk_parseEvent:
  assumes "parseEvent s e = returns s'" and "refsOk s"
  shows "refsOk s'"
  unfolding refsOk_def
proof (intro allI impI)
  fix k i
  assume "workflowMap s' k = Some i"
  then consider
    (old) "workflowMap s k = Some i"
  | (new) item where "i = length (chronologicalList s)"
      "chronologicalList s' = chronologicalList s @ [item]"
      "type item \<noteq> T_activity" "workflowId item = k"
    using workflowMap_parseEvent [OF assms(1)] by blast
  then show "i < length (chronologicalList s') \<and>
      type (chronologicalList s' ! i) \<noteq> T_activity \<and>
      workflowId (chronologicalList s' ! i) = k"
  proof cases
    case old
    then have i: "i < length (chronologicalList s)"
      and ty: "type (chronologicalList s ! i) \<noteq> T_activity"
      and wid: "workflowId (chronologicalList s ! i) = k"
      using assms(2) by (simp_all add: refsOk_def)
    have "length (chronologicalList s) \<le> length (chronologicalList s')"
      and "evolves (chronologicalList s ! i) (chronologicalList s' ! i)"
      using growsFrom_parseEvent [OF assms(1)] i by (simp_all add: growsFrom_nth)
    with i ty wid show ?thesis
      by (simp add: evolves_def itemKey_def)
  next
    case new
    then show ?thesis by simp
  qed
qed


lemma refsOk_initialState: "refsOk initialState"
  by (simp add: refsOk_def initialState_def)




section \<open>What one event does to a workflow span\<close>

lemma closingStatus_workflowTerminalStatus:
  "ty \<in> set workflowClosedTypes \<Longrightarrow> workflowTerminalStatus ty old = closingStatus ty"
  by (auto simp: workflowClosedTypes_def workflowTerminalStatus_def closingStatus_def)

lemma closeTarget_kind:
  "closeTarget s e = Some i \<Longrightarrow>
   eventType e \<in> set workflowClosedTypes \<or> eventType e = CHILD_WORKFLOW_EXECUTION_COMPLETED"
  by (auto simp: closeTarget_def split: if_splits)

lemma restartTarget_kind:
  "restartTarget s e = Some i \<Longrightarrow>
   eventType e = CHILD_WORKFLOW_EXECUTION_STARTED \<or>
   eventType e = START_CHILD_WORKFLOW_EXECUTION_INITIATED"
  by (auto simp: restartTarget_def split: if_splits)

lemma closeTarget_restartTarget:
  "closeTarget s e = Some i \<Longrightarrow> restartTarget s e = None"
  by (auto simp: closeTarget_def restartTarget_def workflowClosedTypes_def split: if_splits)

text \<open>The activity events leave the workflow spans as they are.\<close>

lemma onActivityTaskStarted_workflow_span:
  assumes "i < length (chronologicalList s)" and "type (chronologicalList s ! i) \<noteq> T_activity"
  shows "chronologicalList (onActivityTaskStarted s e) ! i = chronologicalList s ! i"
proof (cases "scanBack (openActivity (stackTop (workflowStack s)) [SCHEDULED])
    (chronologicalList s) (length (chronologicalList s))")
  case None
  then show ?thesis
    by (simp add: onActivityTaskStarted_def Let_def split: option.splits)
next
  case (Some j)
  then have "type (chronologicalList s ! j) = T_activity"
    by (simp add: scanBack_Some_iff openActivity_def)
  with assms have "j \<noteq> i" by auto
  then show ?thesis
    using Some assms(1)
    by (simp add: onActivityTaskStarted_def Let_def nth_mutate split: option.splits)
qed

lemma onActivityTaskClosed_workflow_span:
  assumes "i < length (chronologicalList s)" and "type (chronologicalList s ! i) \<noteq> T_activity"
  shows "chronologicalList (onActivityTaskClosed s e) ! i = chronologicalList s ! i"
proof (cases "scanBack (openActivity (stackTop (workflowStack s)) [STARTED, SCHEDULED])
    (chronologicalList s) (length (chronologicalList s))")
  case None
  then show ?thesis
    by (simp add: onActivityTaskClosed_def Let_def split: option.splits)
next
  case (Some j)
  then have "type (chronologicalList s ! j) = T_activity"
    by (simp add: scanBack_Some_iff openActivity_def)
  with assms have "j \<noteq> i" by auto
  then show ?thesis
    using Some assms(1)
    by (simp add: onActivityTaskClosed_def Let_def nth_mutate split: option.splits)
qed

text \<open>
  The end time and the status of a workflow span are written by the events that
  \<open>closeTarget\<close> resolves to it, and by no other event; its start time is written by the
  events that \<open>restartTarget\<close> resolves to it, and by no other event.
\<close>

lemma workflow_span_step:
  assumes "parseEvent s e = returns s'"
      and "i < length (chronologicalList s)"
      and "type (chronologicalList s ! i) \<noteq> T_activity"
  shows "endTime (chronologicalList s' ! i) =
           (if closeTarget s e = Some i then Some (eventTime e)
            else endTime (chronologicalList s ! i))"
    and "status (chronologicalList s' ! i) =
           (if closeTarget s e = Some i then closingStatus (eventType e)
            else status (chronologicalList s ! i))"
    and "startTime (chronologicalList s' ! i) =
           (if restartTarget s e = Some i then Some (eventTime e)
            else startTime (chronologicalList s ! i))"
proof -
  have closing: "workflowTerminalStatus (eventType e) old = closingStatus (eventType e)"
    if "eventType e \<in> set workflowClosedTypes" for old
    using that by (rule closingStatus_workflowTerminalStatus)
  have "endTime (chronologicalList s' ! i) =
           (if closeTarget s e = Some i then Some (eventTime e)
            else endTime (chronologicalList s ! i)) \<and>
        status (chronologicalList s' ! i) =
           (if closeTarget s e = Some i then closingStatus (eventType e)
            else status (chronologicalList s ! i)) \<and>
        startTime (chronologicalList s' ! i) =
           (if restartTarget s e = Some i then Some (eventTime e)
            else startTime (chronologicalList s ! i))"
  proof (cases "eventType e \<in> set workflowClosedTypes")
    case True
    then have s': "s' = onWorkflowExecutionClosed s e"
      using assms(1) by (simp add: parseEvent_workflowClosed)
    show ?thesis
      using True assms(2) closing [OF True]
      by (auto simp: s' onWorkflowExecutionClosed_def Let_def closeTarget_def
          restartTarget_def workflowClosedTypes_def nth_mutate split: option.splits)
  next
    case False
    note notClosed = this
    show ?thesis
    proof (cases "eventType e \<in> set activityClosedTypes")
      case True
      then have s': "s' = onActivityTaskClosed s e"
        using assms(1) by (simp add: parseEvent_activityClosed)
      show ?thesis
        using True onActivityTaskClosed_workflow_span [OF assms(2,3), of e]
        by (auto simp: s' closeTarget_def restartTarget_def activityClosedTypes_def
            workflowClosedTypes_def)
    next
      case False
      show ?thesis
      proof (cases "eventType e = ACTIVITY_TASK_STARTED")
        case True
        then have s': "s' = onActivityTaskStarted s e"
          using assms(1) by (simp add: parseEvent_def)
        show ?thesis
          using True onActivityTaskStarted_workflow_span [OF assms(2,3), of e]
          by (simp add: s' closeTarget_def restartTarget_def workflowClosedTypes_def)
      next
        case False
        with notClosed \<open>eventType e \<notin> set activityClosedTypes\<close> show ?thesis
          using assms
          by (cases "eventType e")
            (auto simp: parseEvent_def onWorkflowExecutionStarted_def
              onActivityTaskScheduled_def onChildWorkflowExecutionCompleted_def
              onChildWorkflowExecutionStarted_def onStartChildWorkflowExecutionInitiated_def
              inWorkflowMap_def closingStatus_def
              Let_def closeTarget_def restartTarget_def workflowClosedTypes_def
              activityClosedTypes_def nth_mutate nth_append
              split: option.splits if_splits)
      qed
    qed
  qed
  then show "endTime (chronologicalList s' ! i) =
           (if closeTarget s e = Some i then Some (eventTime e)
            else endTime (chronologicalList s ! i))"
    and "status (chronologicalList s' ! i) =
           (if closeTarget s e = Some i then closingStatus (eventType e)
            else status (chronologicalList s ! i))"
    and "startTime (chronologicalList s' ! i) =
           (if restartTarget s e = Some i then Some (eventTime e)
            else startTime (chronologicalList s ! i))"
    by simp_all
qed

section \<open>Terminal status and end time of a span\<close>

lemma workflow_span_kept:
  assumes "parseEvent s e = returns s'"
      and "i < length (chronologicalList s)"
      and "type (chronologicalList s ! i) \<noteq> T_activity"
  shows "i < length (chronologicalList s')" and "type (chronologicalList s' ! i) \<noteq> T_activity"
proof -
  have "length (chronologicalList s) \<le> length (chronologicalList s')"
    and "evolves (chronologicalList s ! i) (chronologicalList s' ! i)"
    using growsFrom_parseEvent [OF assms(1)] assms(2) by (simp_all add: growsFrom_nth)
  with assms(2,3) show "i < length (chronologicalList s')"
    and "type (chronologicalList s' ! i) \<noteq> T_activity"
    by (simp_all add: evolves_def itemKey_def)
qed

lemma lastClose_in_events:
  "lastClose s es i = Some e \<Longrightarrow>
   e \<in> set es \<and>
   (eventType e \<in> set workflowClosedTypes \<or> eventType e = CHILD_WORKFLOW_EXECUTION_COMPLETED)"
proof (induction es arbitrary: s)
  case Nil
  then show ?case by simp
next
  case (Cons a es)
  then show ?case
    by (auto split: option.splits sum.splits if_splits dest: closeTarget_kind)
qed

lemma lastClose_parseEvents:
  assumes "parseEvents s es = returns s'"
      and "i < length (chronologicalList s)"
      and "type (chronologicalList s ! i) \<noteq> T_activity"
  shows "case lastClose s es i of
           None \<Rightarrow>
             endTime (chronologicalList s' ! i) = endTime (chronologicalList s ! i) \<and>
             status (chronologicalList s' ! i) = status (chronologicalList s ! i)
         | Some e \<Rightarrow>
             endTime (chronologicalList s' ! i) = Some (eventTime e) \<and>
             status (chronologicalList s' ! i) = closingStatus (eventType e)"
  using assms
proof (induction es arbitrary: s)
  case Nil
  then show ?case by simp
next
  case (Cons a es)
  from Cons.prems(1) obtain s1 where
    s1: "parseEvent s a = returns s1" "parseEvents s1 es = returns s'"
    using parseEvents_Cons_returns by blast
  note kept = workflow_span_kept [OF s1(1) Cons.prems(2,3)]
  note step = workflow_span_step(1,2) [OF s1(1) Cons.prems(2,3)]
  from Cons.IH [OF s1(2) kept] step show ?case
    by (auto simp: s1(1) split: option.splits)
qed

text \<open>
  Claim C3, as stated in the specification: end time and terminal status of a workflow span
  are assigned at most once, and no later event overwrites them. In the history below the
  child \<open>B\<close> is started (which pushes it on the scope stack) and completed at time 3; the
  WorkflowExecutionFailed event that follows is attributed to the stack top \<open>B\<close> and
  overwrites the end time with 4 and the status COMPLETED with FAILED.
\<close>

theorem C3_overwrite_counterexample:
  "onOutput (map (\<lambda>item. (workflowId item, status item, endTime item)))
     (parseTemporalHistory
        [workflowStarted ''A'' 1 1, childStarted ''B'' 2 2, childCompleted ''B'' 3 3]) =
     returns [(''A'', RUNNING, None), (''B'', COMPLETED, Some 3)] \<and>
   onOutput (map (\<lambda>item. (workflowId item, status item, endTime item)))
     (parseTemporalHistory
        [workflowStarted ''A'' 1 1, childStarted ''B'' 2 2, childCompleted ''B'' 3 3,
         sampleEvent WORKFLOW_EXECUTION_FAILED 4 4]) =
     returns [(''A'', RUNNING, None), (''B'', FAILED, Some 4)]"
  by code_simp

text \<open>
  Claim C3, amended. Let \<open>s\<close> be the state of the parser after the events \<open>xs\<close> and \<open>s'\<close> its
  state after the further events \<open>ys\<close>, and take a span of the list of \<open>s\<close>, at position
  \<open>i\<close>.

  If it is a workflow span, its end time and status are written by nothing but a terminal
  workflow event that finds the span under the stack top, or a
  ChildWorkflowExecutionCompleted event for its workflow identifier: when no event of \<open>ys\<close>
  resolves to the span in one of these two ways, its end time and its status in \<open>s'\<close> are
  those in \<open>s\<close>; otherwise they are the time of the last such event of \<open>ys\<close> and the status
  of its kind, whether or not the span was terminal in \<open>s\<close> (they are assigned again, not
  at most once).

  For every span: a terminal status (COMPLETED, FAILED, TIMED_OUT, CANCELED, TERMINATED)
  never goes back to a non-terminal one, an end time that is set is never removed, and
  the kind and the workflow identifier of the span stay.
\<close>

theorem C3_end_and_status_written_by_closing_events_only:
  assumes "parseEvents initialState xs = returns s"
      and "parseEvents initialState (xs @ ys) = returns s'"
      and "i < length (chronologicalList s)"
  shows "(type (chronologicalList s ! i) \<noteq> T_activity \<longrightarrow>
            (case lastClose s ys i of
               None \<Rightarrow>
                 endTime (chronologicalList s' ! i) = endTime (chronologicalList s ! i) \<and>
                 status (chronologicalList s' ! i) = status (chronologicalList s ! i)
             | Some e \<Rightarrow>
                 e \<in> set ys \<and>
                 (eventType e \<in> set workflowClosedTypes \<or>
                  eventType e = CHILD_WORKFLOW_EXECUTION_COMPLETED) \<and>
                 endTime (chronologicalList s' ! i) = Some (eventTime e) \<and>
                 status (chronologicalList s' ! i) = closingStatus (eventType e))) \<and>
         (isTerminal (status (chronologicalList s ! i)) \<longrightarrow>
            isTerminal (status (chronologicalList s' ! i))) \<and>
         (endTime (chronologicalList s ! i) \<noteq> None \<longrightarrow>
            endTime (chronologicalList s' ! i) \<noteq> None) \<and>
         type (chronologicalList s' ! i) = type (chronologicalList s ! i) \<and>
         workflowId (chronologicalList s' ! i) = workflowId (chronologicalList s ! i)"
proof -
  have rest: "parseEvents s ys = returns s'"
    using assms(1,2) by (simp add: parseEvents_append)
  have "evolves (chronologicalList s ! i) (chronologicalList s' ! i)"
    using growsFrom_parseEvents [OF rest] assms(3) by (simp add: growsFrom_nth)
  then have kept: "(isTerminal (status (chronologicalList s ! i)) \<longrightarrow>
            isTerminal (status (chronologicalList s' ! i))) \<and>
         (endTime (chronologicalList s ! i) \<noteq> None \<longrightarrow>
            endTime (chronologicalList s' ! i) \<noteq> None) \<and>
         type (chronologicalList s' ! i) = type (chronologicalList s ! i) \<and>
         workflowId (chronologicalList s' ! i) = workflowId (chronologicalList s ! i)"
    by (simp add: evolves_def itemKey_def)
  have written: "case lastClose s ys i of
       None \<Rightarrow>
         endTime (chronologicalList s' ! i) = endTime (chronologicalList s ! i) \<and>
         status (chronologicalList s' ! i) = status (chronologicalList s ! i)
     | Some e \<Rightarrow>
         e \<in> set ys \<and>
         (eventType e \<in> set workflowClosedTypes \<or>
          eventType e = CHILD_WORKFLOW_EXECUTION_COMPLETED) \<and>
         endTime (chronologicalList s' ! i) = Some (eventTime e) \<and>
         status (chronologicalList s' ! i) = closingStatus (eventType e)"
    if "type (chronologicalList s ! i) \<noteq> T_activity"
    using lastClose_parseEvents [OF rest assms(3) that] lastClose_in_events [of s ys i]
    by (auto split: option.splits)
  from kept written show ?thesis
    by blast
qed

text \<open>After \<open>A\<close> is started and \<open>B\<close> is started and completed (at time 3), a
  WorkflowExecutionFailed event (time 4) and a ChildWorkflowExecutionStarted event for \<open>B\<close>
  follow. The first of the two resolves to \<open>B\<close>, the stack top, and to nothing else: \<open>B\<close>
  ends FAILED at 4, and \<open>A\<close> is as it was.\<close>

theorem C3_end_and_status_written_by_closing_events_only_witness:
  "\<exists>s s'.
     parseEvents initialState
       [workflowStarted ''A'' 1 1, childStarted ''B'' 2 2, childCompleted ''B'' 3 3] =
       returns s \<and>
     parseEvents initialState
       ([workflowStarted ''A'' 1 1, childStarted ''B'' 2 2, childCompleted ''B'' 3 3] @
        [sampleEvent WORKFLOW_EXECUTION_FAILED 4 4, childStarted ''B'' 5 5]) = returns s' \<and>
     length (chronologicalList s) = 2 \<and>
     type (chronologicalList s ! 0) = T_workflow \<and>
     type (chronologicalList s ! 1) = T_childWorkflow \<and>
     lastClose s [sampleEvent WORKFLOW_EXECUTION_FAILED 4 4, childStarted ''B'' 5 5] 0 = None \<and>
     lastClose s [sampleEvent WORKFLOW_EXECUTION_FAILED 4 4, childStarted ''B'' 5 5] 1 =
       Some (sampleEvent WORKFLOW_EXECUTION_FAILED 4 4) \<and>
     status (chronologicalList s ! 0) = RUNNING \<and>
     endTime (chronologicalList s ! 0) = None \<and>
     status (chronologicalList s' ! 0) = RUNNING \<and>
     endTime (chronologicalList s' ! 0) = None \<and>
     status (chronologicalList s ! 1) = COMPLETED \<and>
     endTime (chronologicalList s ! 1) = Some 3 \<and>
     status (chronologicalList s' ! 1) = FAILED \<and>
     endTime (chronologicalList s' ! 1) = Some 4"
proof -
  let ?xs = "[workflowStarted ''A'' 1 1, childStarted ''B'' 2 2, childCompleted ''B'' 3 3]
    :: nat Event list"
  let ?ys = "[sampleEvent WORKFLOW_EXECUTION_FAILED 4 4, childStarted ''B'' 5 5]
    :: nat Event list"
  define s where "s = projr (the (parseEvents initialState ?xs))"
  define s' where "s' = projr (the (parseEvents initialState (?xs @ ?ys)))"
  have s: "parseEvents initialState ?xs = returns s"
    unfolding s_def by (simp add: eval_defs)
  have s': "parseEvents initialState (?xs @ ?ys) = returns s'"
    unfolding s'_def by (simp add: eval_defs)
  have len: "length (chronologicalList s) = 2"
    and ty0: "type (chronologicalList s ! 0) = T_workflow"
    and ty1: "type (chronologicalList s ! 1) = T_childWorkflow"
    and st0: "status (chronologicalList s ! 0) = RUNNING"
    and end0: "endTime (chronologicalList s ! 0) = None"
    and st1: "status (chronologicalList s ! 1) = COMPLETED"
    and end1: "endTime (chronologicalList s ! 1) = Some 3"
    unfolding s_def by code_simp+
  have lc0: "lastClose s ?ys 0 = None"
    and lc1: "lastClose s ?ys 1 = Some (sampleEvent WORKFLOW_EXECUTION_FAILED 4 4)"
    unfolding s_def by code_simp+
  have closing: "closingStatus (eventType (sampleEvent WORKFLOW_EXECUTION_FAILED 4 4)) = FAILED"
    and time: "eventTime (sampleEvent WORKFLOW_EXECUTION_FAILED 4 4 :: nat Event) = 4"
    by (simp_all add: closingStatus_def sample_defs)
  have st0': "status (chronologicalList s' ! 0) = RUNNING"
    and end0': "endTime (chronologicalList s' ! 0) = None"
    using C3_end_and_status_written_by_closing_events_only [OF s s', of 0]
      len ty0 lc0 st0 end0
    by simp_all
  have st1': "status (chronologicalList s' ! 1) = FAILED"
    and end1': "endTime (chronologicalList s' ! 1) = Some 4"
    using C3_end_and_status_written_by_closing_events_only [OF s s', of 1]
      len ty1 lc1 closing time
    by simp_all
  show ?thesis
    by (rule exI [of _ s], rule exI [of _ s'], intro conjI)
      (fact s s' len ty0 ty1 lc0 lc1 st0 end0 st0' end0' st1 end1 st1' end1')+
qed

section \<open>Order of the output list\<close>




section \<open>One workflow span per workflow identifier\<close>
























section \<open>Start time and end time\<close>

lemma notAfter_mono: "notAfter b item \<Longrightarrow> b \<le> b' \<Longrightarrow> notAfter b' item"
  by (auto simp: notAfter_def split: option.splits)

lemma boundedBy_mono: "boundedBy b s \<Longrightarrow> b \<le> b' \<Longrightarrow> boundedBy b' s"
  by (auto simp: boundedBy_def intro: notAfter_mono)

text \<open>What one event does to an activity span: nothing, or it starts a scheduled span,
  or it closes an open one.\<close>

lemma activity_span_step:
  assumes "parseEvent s e = returns s'"
      and "refsOk s"
      and "j < length (chronologicalList s)"
      and "type (chronologicalList s ! j) = T_activity"
  shows "(startTime (chronologicalList s' ! j) = startTime (chronologicalList s ! j) \<and>
          endTime (chronologicalList s' ! j) = endTime (chronologicalList s ! j) \<and>
          status (chronologicalList s' ! j) = status (chronologicalList s ! j)) \<or>
         (status (chronologicalList s ! j) = SCHEDULED \<and>
          startTime (chronologicalList s' ! j) = Some (eventTime e) \<and>
          endTime (chronologicalList s' ! j) = endTime (chronologicalList s ! j) \<and>
          status (chronologicalList s' ! j) = STARTED) \<or>
         (status (chronologicalList s ! j) \<in> set [STARTED, SCHEDULED] \<and>
          startTime (chronologicalList s' ! j) = startTime (chronologicalList s ! j) \<and>
          endTime (chronologicalList s' ! j) = Some (eventTime e) \<and>
          status (chronologicalList s' ! j) = activityNewStatus (eventType e))"
proof -
  have other: "\<forall>key. workflowMap s key \<noteq> Some j"
    using assms(2,4) by (auto simp: refsOk_def)
  show ?thesis
  proof (cases "eventType e \<in> set activityClosedTypes")
    case True
    then have s': "s' = onActivityTaskClosed s e"
      using assms(1) by (simp add: parseEvent_activityClosed)
    show ?thesis
    proof (cases "scanBack (openActivity (stackTop (workflowStack s)) [STARTED, SCHEDULED])
        (chronologicalList s) (length (chronologicalList s))")
      case None
      then show ?thesis
        by (simp add: s' onActivityTaskClosed_def)
    next
      case (Some i)
      then have "openActivity (stackTop (workflowStack s)) [STARTED, SCHEDULED]
          (chronologicalList s ! i)"
        by (simp add: scanBack_Some_iff)
      then show ?thesis
        using Some assms(3)
        by (cases "i = j") (auto simp: s' onActivityTaskClosed_def openActivity_def nth_mutate)
    qed
  next
    case False
    note notClosed = this
    show ?thesis
    proof (cases "eventType e = ACTIVITY_TASK_STARTED")
      case True
      then have s': "s' = onActivityTaskStarted s e"
        using assms(1) by (simp add: parseEvent_def)
      show ?thesis
      proof (cases "scanBack (openActivity (stackTop (workflowStack s)) [SCHEDULED])
          (chronologicalList s) (length (chronologicalList s))")
        case None
        then show ?thesis
          by (simp add: s' onActivityTaskStarted_def split: option.splits)
      next
        case (Some i)
        then have "openActivity (stackTop (workflowStack s)) [SCHEDULED]
            (chronologicalList s ! i)"
          by (simp add: scanBack_Some_iff)
        then show ?thesis
          using Some assms(3)
          by (cases "i = j")
            (auto simp: s' onActivityTaskStarted_def openActivity_def nth_mutate
              split: option.splits)
      qed
    next
      case False
      have "chronologicalList s' ! j = chronologicalList s ! j"
        using assms(1,3) notClosed False other
        by (cases "eventType e")
          (auto simp: parseEvent_def onWorkflowExecutionStarted_def
            onWorkflowExecutionClosed_def onActivityTaskScheduled_def
            onChildWorkflowExecutionCompleted_def onChildWorkflowExecutionStarted_def
            onStartChildWorkflowExecutionInitiated_def Let_def activityClosedTypes_def
            nth_mutate nth_append split: option.splits if_splits)
      then show ?thesis by simp
    qed
  qed
qed

text \<open>An item that an event appends has no end time.\<close>

lemma new_item_step:
  assumes "parseEvent s e = returns s'"
      and "length (chronologicalList s') \<noteq> length (chronologicalList s)"
  shows "length (chronologicalList s') = Suc (length (chronologicalList s)) \<and>
         endTime (chronologicalList s' ! length (chronologicalList s)) = None \<and>
         (startTime (chronologicalList s' ! length (chronologicalList s)) = None \<or>
          startTime (chronologicalList s' ! length (chronologicalList s)) =
            Some (eventTime e)) \<and>
         status (chronologicalList s' ! length (chronologicalList s)) \<in>
           set [RUNNING, SCHEDULED]"
  using assms
  by (cases "eventType e")
    (auto simp: handler_defs Let_def split: option.splits if_splits)

lemma closeTarget_in_range:
  "refsOk s \<Longrightarrow> closeTarget s e = Some i \<Longrightarrow>
   i < length (chronologicalList s) \<and> type (chronologicalList s ! i) \<noteq> T_activity"
  by (auto simp: closeTarget_def refsOk_def split: if_splits option.splits)

lemma restartTarget_in_range:
  "refsOk s \<Longrightarrow> restartTarget s e = Some i \<Longrightarrow>
   i < length (chronologicalList s) \<and> type (chronologicalList s ! i) \<noteq> T_activity"
  by (auto simp: restartTarget_def refsOk_def split: if_splits option.splits)

lemma set_lateStartStep:
  "set (lateStartStep s e late) \<subseteq>
     set late \<union> (case restartTarget s e of None \<Rightarrow> {} | Some i \<Rightarrow> {i})"
  by (auto simp: lateStartStep_def split: option.splits if_splits)

text \<open>The invariant of the parser's state, and its step.\<close>

lemma timesOk_step:
  fixes s :: "('t::linorder) ParseState"
  assumes step: "parseEvent s e = returns s'"
      and refs: "refsOk s"
      and bound: "boundedBy (eventTime e) s"
      and acts: "activitiesOk s"
      and wfs: "workflowsOk s late"
      and range: "\<forall>i \<in> set late. i < length (chronologicalList s)"
  shows "boundedBy (eventTime e) s'"
    and "activitiesOk s'"
    and "workflowsOk s' (lateStartStep s e late)"
    and "\<forall>i \<in> set (lateStartStep s e late). i < length (chronologicalList s')"
proof -
  let ?xs = "chronologicalList s" and ?ys = "chronologicalList s'"
  let ?b = "eventTime e"
  have grows: "length ?xs \<le> length ?ys"
    and kind: "\<And>j. j < length ?xs \<Longrightarrow> type (?ys ! j) = type (?xs ! j)"
    using growsFrom_parseEvent [OF step]
    by (simp_all add: growsFrom_nth evolves_def itemKey_def)
  have len: "length ?ys \<le> Suc (length ?xs)"
    by (rule length_parseEvent [OF step])
  have old_bound: "notAfter ?b (?xs ! j)" if "j < length ?xs" for j
    using bound that by (simp add: boundedBy_def)
  have old_act: "activityOk (?xs ! j)" if "j < length ?xs" for j
    using acts that by (simp add: activitiesOk_def)
  have old_wf: "timesOrdered (?xs ! j) \<longleftrightarrow> j \<notin> set late"
    if "j < length ?xs" "type (?xs ! j) \<noteq> T_activity" for j
    using wfs that by (simp add: workflowsOk_def)
  have new: "endTime (?ys ! j) = None \<and>
      (startTime (?ys ! j) = None \<or> startTime (?ys ! j) = Some ?b) \<and>
      status (?ys ! j) \<in> set [RUNNING, SCHEDULED]"
    if "j < length ?ys" "\<not> j < length ?xs" for j
  proof -
    from that len have "length ?ys \<noteq> length ?xs" and "j = length ?xs"
      by simp_all
    then show ?thesis
      using new_item_step [OF step] by simp
  qed
  have late_range: "i < length ?xs" if "i \<in> set (lateStartStep s e late)" for i
    using that set_lateStartStep [of s e late] range restartTarget_in_range [OF refs, of e]
    by (auto split: option.splits)
  have b: "notAfter ?b (?ys ! j)" if "j < length ?ys" for j
  proof (cases "j < length ?xs")
    case False
    with new [OF that] show ?thesis
      by (auto simp: notAfter_def)
  next
    case True
    show ?thesis
    proof (cases "type (?xs ! j) = T_activity")
      case True
      with activity_span_step [OF step refs \<open>j < length ?xs\<close>] old_bound [OF \<open>j < length ?xs\<close>]
      show ?thesis
        by (auto simp: notAfter_def)
    next
      case False
      with workflow_span_step(1,3) [OF step \<open>j < length ?xs\<close>] old_bound [OF \<open>j < length ?xs\<close>]
      show ?thesis
        by (auto simp: notAfter_def)
    qed
  qed
  have a: "activityOk (?ys ! j)" if "j < length ?ys" for j
  proof (cases "j < length ?xs")
    case False
    with new [OF that] show ?thesis
      by (auto simp: activityOk_def timesOrdered_def)
  next
    case True
    show ?thesis
    proof (cases "type (?xs ! j) = T_activity")
      case True
      have "activityNewStatus (eventType e) \<notin> set [STARTED, SCHEDULED]"
        by (cases "eventType e") (simp_all add: activityNewStatus_def)
      with activity_span_step [OF step refs \<open>j < length ?xs\<close> True]
        old_bound [OF \<open>j < length ?xs\<close>] old_act [OF \<open>j < length ?xs\<close>] True
      show ?thesis
        by (auto simp: activityOk_def timesOrdered_def notAfter_def kind [OF \<open>j < length ?xs\<close>]
            split: option.splits)
    next
      case False
      then show ?thesis
        by (simp add: activityOk_def kind [OF True])
    qed
  qed
  have w: "timesOrdered (?ys ! j) \<longleftrightarrow> j \<notin> set (lateStartStep s e late)"
    if "j < length ?ys" "type (?ys ! j) \<noteq> T_activity" for j
  proof (cases "j < length ?xs")
    case False
    with new [OF that(1)] late_range [of j] show ?thesis
      by (auto simp: timesOrdered_def)
  next
    case True
    then have ty: "type (?xs ! j) \<noteq> T_activity"
      using that(2) by (simp add: kind)
    note fields = workflow_span_step(1,3) [OF step True ty]
    note before = old_wf [OF True ty] old_bound [OF True]
    show ?thesis
    proof (cases "restartTarget s e")
      case (Some i)
      then have noClose: "closeTarget s e \<noteq> Some j"
        using closeTarget_restartTarget [of s e j] by auto
      show ?thesis
        using fields before Some noClose
        by (cases "i = j")
          (auto simp: lateStartStep_def timesOrdered_def notAfter_def split: option.splits)
    next
      case None
      then show ?thesis
        using fields before
        by (cases "closeTarget s e = Some j")
          (auto simp: lateStartStep_def timesOrdered_def notAfter_def split: option.splits)
    qed
  qed
  show "boundedBy (eventTime e) s'"
    using b by (auto simp: boundedBy_def in_set_conv_nth)
  show "activitiesOk s'"
    using a by (auto simp: activitiesOk_def in_set_conv_nth)
  show "workflowsOk s' (lateStartStep s e late)"
    using w by (simp add: workflowsOk_def)
  show "\<forall>i \<in> set (lateStartStep s e late). i < length (chronologicalList s')"
    using late_range grows by fastforce
qed

lemma timesOk_parseEvents:
  fixes s :: "('t::linorder) ParseState"
  assumes "parseEvents s es = returns s'"
      and "refsOk s"
      and "\<forall>e \<in> set es. boundedBy (eventTime e) s"
      and "sorted (map eventTime es)"
      and "activitiesOk s"
      and "workflowsOk s late"
      and "\<forall>i \<in> set late. i < length (chronologicalList s)"
  shows "activitiesOk s' \<and> workflowsOk s' (lateStarts s es late)"
  using assms
proof (induction es arbitrary: s late)
  case Nil
  then show ?case by simp
next
  case (Cons e es)
  from Cons.prems(1) obtain s1 where
    s1: "parseEvent s e = returns s1" "parseEvents s1 es = returns s'"
    using parseEvents_Cons_returns by blast
  have bound: "boundedBy (eventTime e) s"
    using Cons.prems(3) by simp
  note step = timesOk_step [OF s1(1) Cons.prems(2) bound Cons.prems(5,6,7)]
  have refs1: "refsOk s1"
    by (rule refsOk_parseEvent [OF s1(1) Cons.prems(2)])
  have bound1: "\<forall>e' \<in> set es. boundedBy (eventTime e') s1"
    using step(1) Cons.prems(4) by (auto intro: boundedBy_mono)
  have sorted1: "sorted (map eventTime es)"
    using Cons.prems(4) by simp
  have "activitiesOk s' \<and> workflowsOk s' (lateStarts s1 es (lateStartStep s e late))"
    by (rule Cons.IH [OF s1(2) refs1 bound1 sorted1 step(2,3,4)])
  then show ?case
    by (simp add: s1(1))
qed

text \<open>
  Claim C6, as stated in the specification: for every causally ordered event sequence with
  non-decreasing timestamps every item with both times has start time \<open>\<le>\<close> end time. A
  child workflow identifier can be used again after the child has completed; the events
  of the second run resolve to the span of the first and set its start time again, while
  the end time of the first run stays. Below, child \<open>B\<close> is initiated, started and
  completed, and initiated again at time 5: its span then starts at 5 and ends at 4.
\<close>

theorem C6_restart_counterexample:
  "sorted (map eventTime
     [workflowStarted ''A'' 1 1, childInitiated ''B'' 2 2, childStarted ''B'' 3 3,
      childCompleted ''B'' 4 4, childInitiated ''B'' 5 5]) \<and>
   onOutput (map (\<lambda>item. (workflowId item, startTime item, endTime item)))
     (parseTemporalHistory
        [workflowStarted ''A'' 1 1, childInitiated ''B'' 2 2, childStarted ''B'' 3 3,
         childCompleted ''B'' 4 4, childInitiated ''B'' 5 5]) =
     returns [(''A'', Some 1, None), (''B'', Some 5, Some 4)]"
  by code_simp

text \<open>
  Claim C6, amended, span by span. Take an event sequence with non-decreasing timestamps
  for which the parser returns an output, and a span of the output, at position \<open>i\<close>.

  \<^item> An activity span that has both a start time and an end time has start time \<open>\<le>\<close>
    end time.
  \<^item> So has a workflow span, unless it was started again after its end: unless a
    ChildWorkflowExecutionStarted or StartChildWorkflowExecutionInitiated event resolved
    to the span when its end time was earlier than the time of the event, and no
    terminal workflow event or ChildWorkflowExecutionCompleted event resolved to the
    span afterwards (\<open>i\<close> is in \<open>lateStarts initialState evs []\<close>).
  \<^item> A workflow span that was started again after its end in this sense has both
    times, and its end time is earlier than its start time.
\<close>

theorem C6_start_before_end:
  fixes evs :: "('t::linorder) Event list"
  assumes "sorted (map eventTime evs)"
      and "parseTemporalHistory evs = returns out"
      and "i < length out"
  shows "(type (out ! i) = T_activity \<or> i \<notin> set (lateStarts initialState evs []) \<longrightarrow>
            (\<forall>a b. startTime (out ! i) = Some a \<and> endTime (out ! i) = Some b \<longrightarrow> a \<le> b)) \<and>
         (type (out ! i) \<noteq> T_activity \<and> i \<in> set (lateStarts initialState evs []) \<longrightarrow>
            (\<exists>a b. startTime (out ! i) = Some a \<and> endTime (out ! i) = Some b \<and> b < a))"
proof -
  from assms(2) obtain s where
    s: "parseEvents initialState evs = returns s" and out: "out = chronologicalList s"
    unfolding parseTemporalHistory_returns by blast
  have "activitiesOk s \<and> workflowsOk s (lateStarts initialState evs [])"
    by (rule timesOk_parseEvents [OF s refsOk_initialState _ assms(1)])
      (simp_all add: boundedBy_def activitiesOk_def workflowsOk_def initialState_def)
  then have act: "activityOk (out ! i)"
    and wf: "type (out ! i) \<noteq> T_activity \<Longrightarrow>
      timesOrdered (out ! i) \<longleftrightarrow> i \<notin> set (lateStarts initialState evs [])"
    using assms(3) by (simp_all add: out activitiesOk_def workflowsOk_def)
  have ordered: "\<forall>a b. startTime (out ! i) = Some a \<and> endTime (out ! i) = Some b \<longrightarrow> a \<le> b"
    if "type (out ! i) = T_activity \<or> i \<notin> set (lateStarts initialState evs [])"
  proof -
    have "timesOrdered (out ! i)"
      using that act wf by (auto simp: activityOk_def)
    then show ?thesis
      by (auto simp: timesOrdered_def)
  qed
  have late: "\<exists>a b. startTime (out ! i) = Some a \<and> endTime (out ! i) = Some b \<and> b < a"
    if "type (out ! i) \<noteq> T_activity \<and> i \<in> set (lateStarts initialState evs [])"
  proof -
    have "\<not> timesOrdered (out ! i)"
      using that wf by simp
    then show ?thesis
      by (auto simp: timesOrdered_def split: option.splits)
  qed
  from ordered late show ?thesis
    by blast
qed

text \<open>Workflow \<open>A\<close> runs the activity \<open>a1\<close> from 3 to 4; child \<open>B\<close> is initiated at 5,
  completed at 6 and initiated again at 7. The span of \<open>B\<close> (position 2) is the one that
  was started again after its end: it starts at 7 and ends at 6, while \<open>A\<close> and \<open>a1\<close> are
  in order. When \<open>B\<close> is then completed once more, at 8, every span is in order.\<close>

theorem C6_start_before_end_witness:
  "sorted (map eventTime
     [workflowStarted ''A'' 1 1, activityScheduled ''a1'' 2 2, activityStarted 3 3,
      sampleEvent ACTIVITY_TASK_COMPLETED 4 4, childInitiated ''B'' 5 5,
      childCompleted ''B'' 6 6, childInitiated ''B'' 7 7]) \<and>
   sorted (map eventTime
     [workflowStarted ''A'' 1 1, activityScheduled ''a1'' 2 2, activityStarted 3 3,
      sampleEvent ACTIVITY_TASK_COMPLETED 4 4, childInitiated ''B'' 5 5,
      childCompleted ''B'' 6 6, childInitiated ''B'' 7 7, childCompleted ''B'' 8 8]) \<and>
   lateStarts initialState
     [workflowStarted ''A'' 1 1, activityScheduled ''a1'' 2 2, activityStarted 3 3,
      sampleEvent ACTIVITY_TASK_COMPLETED 4 4, childInitiated ''B'' 5 5,
      childCompleted ''B'' 6 6, childInitiated ''B'' 7 7] [] = [2] \<and>
   lateStarts initialState
     [workflowStarted ''A'' 1 1, activityScheduled ''a1'' 2 2, activityStarted 3 3,
      sampleEvent ACTIVITY_TASK_COMPLETED 4 4, childInitiated ''B'' 5 5,
      childCompleted ''B'' 6 6, childInitiated ''B'' 7 7, childCompleted ''B'' 8 8] [] = [] \<and>
   (\<exists>out out'.
      parseTemporalHistory
        [workflowStarted ''A'' 1 1, activityScheduled ''a1'' 2 2, activityStarted 3 3,
         sampleEvent ACTIVITY_TASK_COMPLETED 4 4, childInitiated ''B'' 5 5,
         childCompleted ''B'' 6 6, childInitiated ''B'' 7 7] = returns out \<and>
      parseTemporalHistory
        [workflowStarted ''A'' 1 1, activityScheduled ''a1'' 2 2, activityStarted 3 3,
         sampleEvent ACTIVITY_TASK_COMPLETED 4 4, childInitiated ''B'' 5 5,
         childCompleted ''B'' 6 6, childInitiated ''B'' 7 7, childCompleted ''B'' 8 8] =
        returns out' \<and>
      map (\<lambda>item. (type item, startTime item, endTime item)) out =
        [(T_workflow, Some 1, None), (T_activity, Some 3, Some 4),
         (T_childWorkflow, Some 7, Some 6)] \<and>
      map (\<lambda>item. (type item, startTime item, endTime item)) out' =
        [(T_workflow, Some 1, None), (T_activity, Some 3, Some 4),
         (T_childWorkflow, Some 7, Some 8)] \<and>
      timesOrdered (out ! 0) \<and> timesOrdered (out ! 1) \<and> \<not> timesOrdered (out ! 2) \<and>
      timesOrdered (out' ! 0) \<and> timesOrdered (out' ! 1) \<and> timesOrdered (out' ! 2))"
proof -
  let ?evs = "[workflowStarted ''A'' 1 1, activityScheduled ''a1'' 2 2, activityStarted 3 3,
      sampleEvent ACTIVITY_TASK_COMPLETED 4 4, childInitiated ''B'' 5 5,
      childCompleted ''B'' 6 6, childInitiated ''B'' 7 7] :: nat Event list"
  let ?evs' = "[workflowStarted ''A'' 1 1, activityScheduled ''a1'' 2 2, activityStarted 3 3,
      sampleEvent ACTIVITY_TASK_COMPLETED 4 4, childInitiated ''B'' 5 5,
      childCompleted ''B'' 6 6, childInitiated ''B'' 7 7, childCompleted ''B'' 8 8]
      :: nat Event list"
  define out where "out = projr (the (parseTemporalHistory ?evs))"
  define out' where "out' = projr (the (parseTemporalHistory ?evs'))"
  have sorted: "sorted (map eventTime ?evs)" and sorted': "sorted (map eventTime ?evs')"
    by code_simp+
  have late: "lateStarts initialState ?evs [] = [2]"
    and late': "lateStarts initialState ?evs' [] = []"
    by code_simp+
  have o: "parseTemporalHistory ?evs = returns out"
    unfolding out_def by code_simp
  have o': "parseTemporalHistory ?evs' = returns out'"
    unfolding out'_def by code_simp
  have items: "map (\<lambda>item. (type item, startTime item, endTime item)) out =
      [(T_workflow, Some 1, None), (T_activity, Some 3, Some 4),
       (T_childWorkflow, Some 7, Some 6)]"
    unfolding out_def by code_simp
  have items': "map (\<lambda>item. (type item, startTime item, endTime item)) out' =
      [(T_workflow, Some 1, None), (T_activity, Some 3, Some 4),
       (T_childWorkflow, Some 7, Some 8)]"
    unfolding out'_def by code_simp
  have len: "length out = 3" and len': "length out' = 3"
    using items items' by (auto dest: arg_cong [where f = length])
  have kinds: "type (out ! 1) = T_activity" "type (out ! 2) \<noteq> T_activity"
    "type (out' ! 1) = T_activity"
    unfolding out_def out'_def by code_simp+
  have t0: "timesOrdered (out ! 0)"
    using C6_start_before_end [OF sorted o, of 0, unfolded late] len
    by (auto simp: timesOrdered_def split: option.splits)
  have t1: "timesOrdered (out ! 1)"
    using C6_start_before_end [OF sorted o, of 1, unfolded late] len
    by (auto simp: timesOrdered_def split: option.splits)
  have t2: "\<not> timesOrdered (out ! 2)"
    using C6_start_before_end [OF sorted o, of 2, unfolded late] len kinds
    by (auto simp: timesOrdered_def split: option.splits)
  have t0': "timesOrdered (out' ! 0)"
    using C6_start_before_end [OF sorted' o', of 0, unfolded late'] len'
    by (auto simp: timesOrdered_def split: option.splits)
  have t1': "timesOrdered (out' ! 1)"
    using C6_start_before_end [OF sorted' o', of 1, unfolded late'] len'
    by (auto simp: timesOrdered_def split: option.splits)
  have t2': "timesOrdered (out' ! 2)"
    using C6_start_before_end [OF sorted' o', of 2, unfolded late'] len'
    by (auto simp: timesOrdered_def split: option.splits)
  show ?thesis
    by (intro conjI, fact sorted, fact sorted', fact late, fact late',
        rule exI [of _ out], rule exI [of _ out'], intro conjI)
      (fact o o' items items' t0 t1 t2 t0' t1' t2')+
qed

end
